theory Spec2Isabelle
  imports Main "HOL-Library.Word" "HOL-Library.Sublist"
begin

section \<open>Go strings and the library functions the importer calls\<close>

text \<open>
  A Go string is a sequence of bytes; here it is a \<^typ>\<open>string\<close>, one \<^typ>\<open>char\<close> per byte
  of the UTF-8 text. The scanner of \<open>main\<close> hands the loop one line at a time, without its
  line terminator. Every delimiter of the tag grammar is an ASCII byte, and an ASCII byte
  is never part of a longer UTF-8 sequence, so matching byte by byte finds the same
  matches and the same captured texts as Go's matching rune by rune.
\<close>

subsection \<open>\<open>strings.TrimSpace\<close> and \<open>strings.Contains\<close>\<close>

text \<open>
  \<open>strings.TrimSpace\<close> removes leading and trailing white space as \<open>unicode.IsSpace\<close>
  defines it. The list holds the UTF-8 encodings of those runes: tab, line feed, vertical
  tab, form feed, carriage return, space, U+0085, U+00A0, U+1680, U+2000 to U+200A, U+2028,
  U+2029, U+202F, U+205F and U+3000.
\<close>

definition unicodeSpaces :: "string list" where
  "unicodeSpaces =
     [[CHR 0x09], [CHR 0x0A], [CHR 0x0B], [CHR 0x0C], [CHR 0x0D], [CHR 0x20],
      [CHR 0xC2, CHR 0x85], [CHR 0xC2, CHR 0xA0], [CHR 0xE1, CHR 0x9A, CHR 0x80],
      [CHR 0xE2, CHR 0x80, CHR 0x80], [CHR 0xE2, CHR 0x80, CHR 0x81],
      [CHR 0xE2, CHR 0x80, CHR 0x82], [CHR 0xE2, CHR 0x80, CHR 0x83],
      [CHR 0xE2, CHR 0x80, CHR 0x84], [CHR 0xE2, CHR 0x80, CHR 0x85],
      [CHR 0xE2, CHR 0x80, CHR 0x86], [CHR 0xE2, CHR 0x80, CHR 0x87],
      [CHR 0xE2, CHR 0x80, CHR 0x88], [CHR 0xE2, CHR 0x80, CHR 0x89],
      [CHR 0xE2, CHR 0x80, CHR 0x8A], [CHR 0xE2, CHR 0x80, CHR 0xA8],
      [CHR 0xE2, CHR 0x80, CHR 0xA9], [CHR 0xE2, CHR 0x80, CHR 0xAF],
      [CHR 0xE2, CHR 0x81, CHR 0x9F], [CHR 0xE3, CHR 0x80, CHR 0x80]]"

text \<open>Strip, from the front, every leading word of the list, until none is a prefix.\<close>

function stripLeading :: "string list \<Rightarrow> string \<Rightarrow> string" where
  "stripLeading ws s =
     (case List.find (\<lambda>w. w \<noteq> [] \<and> prefix w s) ws of
        None \<Rightarrow> s
      | Some w \<Rightarrow> stripLeading ws (drop (length w) s))"
  by pat_completeness auto
termination
proof (relation "measure (\<lambda>(ws, s). length s)")
  show "wf (measure (\<lambda>(ws, s). length s))" by simp
next
  fix ws :: "string list" and s w :: string
  assume "List.find (\<lambda>w. w \<noteq> [] \<and> prefix w s) ws = Some w"
  then have "w \<noteq> []" and "prefix w s"
    by (auto simp: find_Some_iff)
  then have "s \<noteq> []" by auto
  with \<open>w \<noteq> []\<close> show "((ws, drop (length w) s), (ws, s)) \<in> measure (\<lambda>(ws, s). length s)"
    by simp
qed

declare stripLeading.simps [simp del]

definition TrimSpace :: "string \<Rightarrow> string" where
  "TrimSpace s =
     rev (stripLeading (map rev unicodeSpaces) (rev (stripLeading unicodeSpaces s)))"

fun Contains :: "string \<Rightarrow> string \<Rightarrow> bool" where
  "Contains [] substr = (substr = [])"
| "Contains (c # s) substr = (prefix substr (c # s) \<or> Contains s substr)"

subsection \<open>\<open>fmt.Sprint\<close> of the values a row holds\<close>

text \<open>
  \<open>AddRow\<close> takes \<open>interface{}\<close> values; the importer passes strings and \<open>int64\<close>
  identities. \<open>fmt.Sprint\<close> renders a string as itself and an \<open>int64\<close> in decimal.
\<close>

type_synonym int64 = "64 word"

datatype val = VStr string | VInt int64

fun digits :: "nat \<Rightarrow> string" where
  "digits n =
     (if n < 10 then [''0123456789'' ! n]
      else digits (n div 10) @ [''0123456789'' ! (n mod 10)])"

declare digits.simps [simp del]

definition FormatInt :: "int \<Rightarrow> string" where
  "FormatInt i = (if i < 0 then CHR ''-'' # digits (nat (- i)) else digits (nat i))"

fun Sprint :: "val \<Rightarrow> string" where
  "Sprint (VStr s) = s"
| "Sprint (VInt i) = FormatInt (sint i)"

subsection \<open>Package \<open>regexp\<close>\<close>

text \<open>
  The patterns of the importer use literals, the classes \<open>.\<close> (any character but a line
  feed), \<open>\s\<close> (tab, line feed, form feed, carriage return, space) and \<open>[^\s\[]\<close>, the
  anchor \<open>^\<close> (start of the text), greedy and lazy stars, \<open>+\<close>, \<open>?\<close>, \<open>{2,}\<close> and
  capture groups. Go returns the leftmost match and, among the matches that start there,
  the one a backtracking search finds first. \<open>rmatch\<close> lists, in that order of preference,
  every way the pattern matches at the front of the text: what is left of the text after
  the match, whether the match is still at the start of the text, and the captures.
\<close>

datatype cset = Chr char | Dot | OneOf "char list" | NoneOf "char list"

fun accepts :: "cset \<Rightarrow> char \<Rightarrow> bool" where
  "accepts (Chr a) c = (c = a)"
| "accepts Dot c = (c \<noteq> CHR 0x0A)"
| "accepts (OneOf cs) c = (c \<in> set cs)"
| "accepts (NoneOf cs) c = (c \<notin> set cs)"

datatype regex = Sym cset | Eps | Bol | Cat regex regex | Alt regex regex
  | Star regex | LazyStar regex | Group nat regex

type_synonym caps = "nat \<Rightarrow> string"
type_synonym conf = "bool \<times> string \<times> caps"

fun rmatch :: "regex \<Rightarrow> bool \<Rightarrow> string \<Rightarrow> caps \<Rightarrow> conf list" where
  "rmatch (Sym a) b [] cs = []"
| "rmatch (Sym a) b (c # s) cs = (if accepts a c then [(False, s, cs)] else [])"
| "rmatch Eps b s cs = [(b, s, cs)]"
| "rmatch Bol b s cs = (if b then [(b, s, cs)] else [])"
| "rmatch (Cat r1 r2) b s cs =
     concat (map (\<lambda>(b', s', cs'). rmatch r2 b' s' cs') (rmatch r1 b s cs))"
| "rmatch (Alt r1 r2) b s cs = rmatch r1 b s cs @ rmatch r2 b s cs"
| "rmatch (Star r) b s cs =
     concat (map (\<lambda>(b', s', cs').
                if length s' < length s then rmatch (Star r) b' s' cs' else [])
             (rmatch r b s cs))
     @ [(b, s, cs)]"
| "rmatch (LazyStar r) b s cs =
     (b, s, cs) #
     concat (map (\<lambda>(b', s', cs').
                if length s' < length s then rmatch (LazyStar r) b' s' cs' else [])
             (rmatch r b s cs))"
| "rmatch (Group n r) b s cs =
     map (\<lambda>(b', s', cs'). (b', s', cs'(n := take (length s - length s') s)))
       (rmatch r b s cs)"

text \<open>The pattern syntax: a literal word, a sequence, \<open>r+\<close>, \<open>r?\<close> and \<open>r{2,}\<close>.\<close>

fun lit :: "string \<Rightarrow> regex" where
  "lit [] = Eps"
| "lit [c] = Sym (Chr c)"
| "lit (c # s) = Cat (Sym (Chr c)) (lit s)"

fun seq :: "regex list \<Rightarrow> regex" where
  "seq [] = Eps"
| "seq [r] = r"
| "seq (r # rs) = Cat r (seq rs)"

definition Plus :: "regex \<Rightarrow> regex" where
  "Plus r = Cat r (Star r)"

definition Opt :: "regex \<Rightarrow> regex" where
  "Opt r = Alt r Eps"

definition AtLeast2 :: "regex \<Rightarrow> regex" where
  "AtLeast2 r = Cat r (Cat r (Star r))"

definition perlSpace :: "char list" where
  "perlSpace = [CHR 0x09, CHR 0x0A, CHR 0x0C, CHR 0x0D, CHR 0x20]"

text \<open>
  The leftmost match: the text matched, the text after it and the captures of the first
  way to match at the first position that has one.
\<close>

fun search :: "regex \<Rightarrow> bool \<Rightarrow> string \<Rightarrow> (string \<times> string \<times> caps) option" where
  "search r b [] =
     (case rmatch r b [] (\<lambda>_. []) of
        [] \<Rightarrow> None
      | (_, s', cs) # _ \<Rightarrow> Some ([], s', cs))"
| "search r b (c # s) =
     (case rmatch r b (c # s) (\<lambda>_. []) of
        [] \<Rightarrow> search r False s
      | (_, s', cs) # _ \<Rightarrow> Some (take (length (c # s) - length s') (c # s), s', cs))"

text \<open>
  \<open>FindStringSubmatch\<close>: the matched text and the text of the groups (empty for a group
  that took no part in the match), or nothing. \<open>FindString\<close>: the matched text, or the
  empty string. \<open>MatchString\<close>: whether there is a match.
\<close>

definition FindStringSubmatch :: "regex \<Rightarrow> string \<Rightarrow> (nat \<Rightarrow> string) option" where
  "FindStringSubmatch r s =
     (case search r True s of
        None \<Rightarrow> None
      | Some (m, _, cs) \<Rightarrow> Some (cs(0 := m)))"

definition FindString :: "regex \<Rightarrow> string \<Rightarrow> string" where
  "FindString r s = (case search r True s of None \<Rightarrow> [] | Some (m, _, _) \<Rightarrow> m)"

definition MatchString :: "regex \<Rightarrow> string \<Rightarrow> bool" where
  "MatchString r s = (search r True s \<noteq> None)"

text \<open>
  \<open>ReplaceAllString\<close> with a replacement that holds no \<open>$\<close>: the successive leftmost
  matches that do not overlap are replaced. An empty match is replaced too, unless it
  lies right after the previous match, and the search then moves on by one character.
\<close>

function replaceFrom :: "regex \<Rightarrow> string \<Rightarrow> bool \<Rightarrow> bool \<Rightarrow> string \<Rightarrow> string" where
  "replaceFrom r repl b adj s =
     (case rmatch r b s (\<lambda>_. []) of
        [] \<Rightarrow> (case s of [] \<Rightarrow> [] | c # t \<Rightarrow> c # replaceFrom r repl False False t)
      | (_, s', _) # _ \<Rightarrow>
          if length s' < length s then repl @ replaceFrom r repl False True s'
          else (if adj then [] else repl) @
               (case s of [] \<Rightarrow> [] | c # t \<Rightarrow> c # replaceFrom r repl False False t))"
  by pat_completeness auto
termination
  by (relation "measure (\<lambda>(r, repl, b, adj, s). length s)") auto

declare replaceFrom.simps [simp del]

definition ReplaceAllString :: "regex \<Rightarrow> string \<Rightarrow> string \<Rightarrow> string" where
  "ReplaceAllString r src repl = replaceFrom r repl True False src"

section \<open>The tag extractors\<close>

text \<open>\<open>cleanupLine\<close>: the patterns \<open>\[.*?]\<close> and \<open>\s{2,}\<close>.\<close>

definition tagPattern :: regex where
  "tagPattern = seq [Sym (Chr CHR ''[''), LazyStar (Sym Dot), Sym (Chr CHR '']'')]"

definition spacesPattern :: regex where
  "spacesPattern = AtLeast2 (Sym (OneOf perlSpace))"

definition cleanupLine :: "string \<Rightarrow> string" where
  "cleanupLine inputLine =
     (let result = ReplaceAllString tagPattern inputLine [];
          result = ReplaceAllString spacesPattern result '' ''
      in TrimSpace result)"

text \<open>\<open>extractTranslation\<close>: the pattern \<open>\[trn](.*)\[/trn]\<close>.\<close>

definition translationPattern :: regex where
  "translationPattern = seq [lit ''[trn]'', Group 1 (Star (Sym Dot)), lit ''[/trn]'']"

definition extractTranslation :: "string \<Rightarrow> string" where
  "extractTranslation inputLine =
     (case FindStringSubmatch translationPattern inputLine of
        Some res \<Rightarrow> cleanupLine (res 1)
      | None \<Rightarrow> [])"

text \<open>\<open>extractNote\<close>: the pattern \<open>\[p.*?](\[c\s*(.*?)])?(.*?)\[/\<close>.\<close>

definition notePattern :: regex where
  "notePattern =
     seq [lit ''[p'', LazyStar (Sym Dot), Sym (Chr CHR '']''),
          Opt (Group 1 (seq [lit ''[c'', Star (Sym (OneOf perlSpace)),
                             Group 2 (LazyStar (Sym Dot)), Sym (Chr CHR '']'')])),
          Group 3 (LazyStar (Sym Dot)), lit ''[/'']"

definition extractNote :: "string \<Rightarrow> string \<times> string" where
  "extractNote inputLine =
     (case FindStringSubmatch notePattern inputLine of
        Some res \<Rightarrow> (res 2, cleanupLine (res 3))
      | None \<Rightarrow> ([], []))"

text \<open>\<open>scanWordArticleTitle\<close>: the pattern \<open>^[^\s\[].*\<close>.\<close>

definition titlePattern :: regex where
  "titlePattern = seq [Bol, Sym (NoneOf (perlSpace @ ''['')), Star (Sym Dot)]"

definition scanWordArticleTitle :: "string \<Rightarrow> string" where
  "scanWordArticleTitle inputLine = FindString titlePattern inputLine"

text \<open>
  \<open>scanTitle\<close>: the pattern \<open>PREFIX\s*"(.*)"\<close>. The Go function writes the captured text
  to \<open>*dest\<close> and returns true on a match; the model returns the captured text.
\<close>

definition headerPattern :: "string \<Rightarrow> regex" where
  "headerPattern pfx =
     seq [lit pfx, Star (Sym (OneOf perlSpace)), Sym (Chr CHR 0x22),
          Group 1 (Star (Sym Dot)), Sym (Chr CHR 0x22)]"

definition scanTitle :: "string \<Rightarrow> string \<Rightarrow> string option" where
  "scanTitle pfx inputLine =
     (case FindStringSubmatch (headerPattern pfx) inputLine of
        Some res \<Rightarrow> Some (res 1)
      | None \<Rightarrow> None)"

section \<open>The entity store\<close>

text \<open>
  \<open>log.Panicf\<close> and the run-time panic of an index out of range end the call; the
  errors of \<open>validateBodyLine\<close> are values. All are constructors of one type.
\<close>

datatype error =
    ColumnsCountMismatch nat nat
  | UnknownUniqueColumn string
  | IndexOutOfRange nat nat
  | NotBeginningWithSpaces
  | NoExpectedTag string

record Table =
  name :: string
  counter :: int64
  rows :: "string list list"
  columns :: "string list"
  uniqueColIndices :: "nat list"
  uniqueValues :: "string \<rightharpoonup> int64"

definition NewTable :: "string \<Rightarrow> string list \<Rightarrow> Table" where
  "NewTable nm cols =
     \<lparr>name = nm, counter = 0, rows = [], columns = cols,
      uniqueColIndices = [], uniqueValues = Map.empty\<rparr>"

text \<open>The index of the first column of that name, as the inner loop of \<open>SetUniqueCols\<close> finds it.\<close>

fun findCol :: "string list \<Rightarrow> string \<Rightarrow> nat option" where
  "findCol [] uniqueCol = None"
| "findCol (col # cols) uniqueCol =
     (if col = uniqueCol then Some 0 else map_option Suc (findCol cols uniqueCol))"

fun SetUniqueCols :: "string list \<Rightarrow> Table \<Rightarrow> error option \<times> Table" where
  "SetUniqueCols [] t = (None, t)"
| "SetUniqueCols (uniqueCol # uniqueCols) t =
     (case findCol (columns t) uniqueCol of
        Some kCol \<Rightarrow>
          SetUniqueCols uniqueCols (t\<lparr>uniqueColIndices := uniqueColIndices t @ [kCol]\<rparr>)
      | None \<Rightarrow> (Some (UnknownUniqueColumn uniqueCol), t))"

text \<open>
  The key of a row: the concatenation, with no separator, of \<open>fmt.Sprint\<close> of the values
  in the unique columns. Reading \<open>row[uniqueColIndex]\<close> beyond the row panics.
\<close>

fun concatUnique :: "nat list \<Rightarrow> val list \<Rightarrow> error + string" where
  "concatUnique [] row = Inr []"
| "concatUnique (uniqueColIndex # is) row =
     (if uniqueColIndex < length row then
        (case concatUnique is row of
           Inl e \<Rightarrow> Inl e
         | Inr k \<Rightarrow> Inr (Sprint (row ! uniqueColIndex) @ k))
      else Inl (IndexOutOfRange uniqueColIndex (length row)))"

definition appendRow :: "val list \<Rightarrow> int64 \<Rightarrow> Table \<Rightarrow> (error + int64) \<times> Table" where
  "appendRow row c t = (Inr c, t\<lparr>rows := rows t @ [map Sprint row], counter := c\<rparr>)"

text \<open>
  \<open>AddRow\<close> returns the identity, or the panic, together with the table as the call
  leaves it.
\<close>

definition AddRow :: "val list \<Rightarrow> Table \<Rightarrow> (error + int64) \<times> Table" where
  "AddRow row t =
     (let counter' = counter t + 1;
          rowColsCount = length row;
          tableRowsCount = length (columns t)
      in if rowColsCount \<noteq> tableRowsCount
         then (Inl (ColumnsCountMismatch rowColsCount tableRowsCount), t)
         else if length (uniqueColIndices t) > 0
         then (case concatUnique (uniqueColIndices t) row of
                 Inl e \<Rightarrow> (Inl e, t)
               | Inr concatUniqueValue \<Rightarrow>
                   (case uniqueValues t concatUniqueValue of
                      Some rowId \<Rightarrow> (Inr rowId, t)
                    | None \<Rightarrow>
                        appendRow row counter'
                          (t\<lparr>uniqueValues := (uniqueValues t)(concatUniqueValue \<mapsto> counter')\<rparr>)))
         else appendRow row counter' t)"

section \<open>The parse loop\<close>

text \<open>The tables and the local variables of \<open>main\<close>.\<close>

record state =
  wordsTable :: Table
  dictionariesTable :: Table
  translationsTable :: Table
  gramTypeTable :: Table
  gramTypeTranslationTable :: Table
  translationAttributesTable :: Table
  translationAttributesToTranslationsTable :: Table
  languagesTable :: Table
  dicId :: int64
  langFromId :: int64
  langToId :: int64
  wordFromId :: int64
  gramTypeId :: int64
  attributeId :: int64
  translationId :: int64
  wordToId :: int64
  dicName :: string
  langFromName :: string
  langToName :: string

definition uniqueTable :: "string \<Rightarrow> string list \<Rightarrow> string list \<Rightarrow> error + Table" where
  "uniqueTable nm cols uniqueCols =
     (case SetUniqueCols uniqueCols (NewTable nm cols) of
        (None, t) \<Rightarrow> Inr t
      | (Some e, _) \<Rightarrow> Inl e)"

definition withTable :: "error + Table \<Rightarrow> (Table \<Rightarrow> error + state) \<Rightarrow> error + state" where
  "withTable r k = (case r of Inl e \<Rightarrow> Inl e | Inr t \<Rightarrow> k t)"

definition initState :: "error + state" where
  "initState =
     withTable (uniqueTable ''translations'' [''word_from_id'', ''word_to_id'']
                  [''word_from_id'', ''word_to_id'']) (\<lambda>translations.
     withTable (uniqueTable ''gramTypes'' [''value''] [''value'']) (\<lambda>gramTypes.
     withTable (uniqueTable ''gramTypesToTranslations'' [''gram_type_id'', ''translation_id'']
                  [''gram_type_id'', ''translation_id'']) (\<lambda>gramTypesToTranslations.
     withTable (uniqueTable ''translationAttributes'' [''value''] [''value'']) (\<lambda>attributes.
     withTable (uniqueTable ''translationAttributesTranslations''
                  [''attribute_id'', ''translation_id'']
                  [''attribute_id'', ''translation_id'']) (\<lambda>attributesToTranslations.
     withTable (uniqueTable ''languages'' [''name''] [''name'']) (\<lambda>languages.
       Inr \<lparr>wordsTable = NewTable ''words'' [''word'', ''dic_id'', ''lang_id''],
            dictionariesTable = NewTable ''dictionaries'' [''name''],
            translationsTable = translations,
            gramTypeTable = gramTypes,
            gramTypeTranslationTable = gramTypesToTranslations,
            translationAttributesTable = attributes,
            translationAttributesToTranslationsTable = attributesToTranslations,
            languagesTable = languages,
            dicId = 0, langFromId = 0, langToId = 0, wordFromId = 0, gramTypeId = 0,
            attributeId = 0, translationId = 0, wordToId = 0,
            dicName = [], langFromName = [], langToName = []\<rparr>))))))"

text \<open>\<open>validateBodyLine\<close>: the pattern \<open>^\s+\<close>, then the three expected tags.\<close>

definition leadingSpacesPattern :: regex where
  "leadingSpacesPattern = seq [Bol, Plus (Sym (OneOf perlSpace))]"

definition expectedTags :: "string list" where
  "expectedTags = [''[p]'', ''[trn]'', ''[*]'']"

definition validateBodyLine :: "string \<Rightarrow> error option" where
  "validateBodyLine inputLine =
     (if \<not> MatchString leadingSpacesPattern inputLine then Some NotBeginningWithSpaces
      else if list_ex (\<lambda>expectedTag. Contains inputLine expectedTag) expectedTags then None
      else Some (NoExpectedTag inputLine))"

text \<open>The body of the loop, from its last branch to its first.\<close>

definition addGramTypeLink :: "state \<Rightarrow> error + state" where
  "addGramTypeLink st =
     (if word_sless 0 (gramTypeId st) then
        (case AddRow [VInt (gramTypeId st), VInt (translationId st)]
                (gramTypeTranslationTable st) of
           (Inl e, _) \<Rightarrow> Inl e
         | (Inr _, t) \<Rightarrow> Inr (st\<lparr>gramTypeTranslationTable := t\<rparr>))
      else Inr st)"

definition addAttribute :: "string \<Rightarrow> state \<Rightarrow> error + state" where
  "addAttribute note st =
     (if note \<noteq> [] then
        (case AddRow [VStr note] (translationAttributesTable st) of
           (Inl e, _) \<Rightarrow> Inl e
         | (Inr aid, ta) \<Rightarrow>
             (case AddRow [VInt aid, VInt (translationId st)]
                     (translationAttributesToTranslationsTable st) of
                (Inl e, _) \<Rightarrow> Inl e
              | (Inr _, tat) \<Rightarrow>
                  Inr (st\<lparr>translationAttributesTable := ta,
                          translationAttributesToTranslationsTable := tat,
                          attributeId := 0\<rparr>)))
      else Inr st)"

definition addTranslation :: "string \<Rightarrow> string \<Rightarrow> state \<Rightarrow> error + state" where
  "addTranslation translation note st =
     (case AddRow [VStr translation, VInt (dicId st), VInt (langToId st)] (wordsTable st) of
        (Inl e, _) \<Rightarrow> Inl e
      | (Inr wid, wt) \<Rightarrow>
          (case AddRow [VInt (wordFromId st), VInt wid] (translationsTable st) of
             (Inl e, _) \<Rightarrow> Inl e
           | (Inr tid, tt) \<Rightarrow>
               (case addAttribute note
                       (st\<lparr>wordsTable := wt, wordToId := wid,
                           translationsTable := tt, translationId := tid\<rparr>) of
                  Inl e \<Rightarrow> Inl e
                | Inr st' \<Rightarrow> addGramTypeLink st')))"

text \<open>
  Modelled from the spec: \<open>errs.FailOnError\<close> is a function of a package outside the
  repository; a line that fails validation is a fatal parse error that aborts the entire
  run. The error ends the run and is its result.
\<close>

definition bodyLine :: "state \<Rightarrow> string \<Rightarrow> error + state" where
  "bodyLine st line =
     (case validateBodyLine line of
        Some err \<Rightarrow> Inl err
      | None \<Rightarrow>
          (let note = snd (extractNote line);
               translation = extractTranslation line
           in if note \<noteq> [] \<and> translation = [] then
                (case AddRow [VStr note] (gramTypeTable st) of
                   (Inl e, _) \<Rightarrow> Inl e
                 | (Inr gid, gt) \<Rightarrow> Inr (st\<lparr>gramTypeTable := gt, gramTypeId := gid\<rparr>))
              else if translation \<noteq> [] then addTranslation translation note st
              else Inr st))"

definition headwordOrBody :: "state \<Rightarrow> string \<Rightarrow> error + state" where
  "headwordOrBody st line =
     (let wordArticleTitle = scanWordArticleTitle line
      in if wordArticleTitle \<noteq> [] then
           (case AddRow [VStr wordArticleTitle, VInt (dicId st), VInt (langFromId st)]
                   (wordsTable st) of
              (Inl e, _) \<Rightarrow> Inl e
            | (Inr wid, wt) \<Rightarrow>
                Inr (st\<lparr>wordsTable := wt, wordFromId := wid, gramTypeId := 0, attributeId := 0\<rparr>))
         else bodyLine st line)"

text \<open>
  A header test is \<open>name == "" && scanTitle(prefix, line, &name)\<close>: the pattern is tried
  only while the name is empty.
\<close>

definition header :: "string \<Rightarrow> string \<Rightarrow> string \<Rightarrow> string option" where
  "header current pfx line = (if current = [] then scanTitle pfx line else None)"

definition step :: "state \<Rightarrow> string \<Rightarrow> error + state" where
  "step st line =
     (if TrimSpace line = [] then Inr st
      else
        (case header (dicName st) ''#NAME'' line of
           Some nm \<Rightarrow>
             (case AddRow [VStr nm] (dictionariesTable st) of
                (Inl e, _) \<Rightarrow> Inl e
              | (Inr i, t) \<Rightarrow> Inr (st\<lparr>dicName := nm, dictionariesTable := t, dicId := i\<rparr>))
         | None \<Rightarrow>
             (case header (langFromName st) ''#INDEX_LANGUAGE'' line of
                Some nm \<Rightarrow>
                  (case AddRow [VStr nm] (languagesTable st) of
                     (Inl e, _) \<Rightarrow> Inl e
                   | (Inr i, t) \<Rightarrow>
                       Inr (st\<lparr>langFromName := nm, languagesTable := t, langFromId := i\<rparr>))
              | None \<Rightarrow>
                  (case header (langToName st) ''#CONTENTS_LANGUAGE'' line of
                     Some nm \<Rightarrow>
                       (case AddRow [VStr nm] (languagesTable st) of
                          (Inl e, _) \<Rightarrow> Inl e
                        | (Inr i, t) \<Rightarrow>
                            Inr (st\<lparr>langToName := nm, languagesTable := t, langToId := i\<rparr>))
                   | None \<Rightarrow> headwordOrBody st line))))"

fun processLines :: "state \<Rightarrow> string list \<Rightarrow> error + state" where
  "processLines st [] = Inr st"
| "processLines st (line # ls) =
     (case step st line of
        Inl e \<Rightarrow> Inl e
      | Inr st' \<Rightarrow> processLines st' ls)"

text \<open>
  The run: the lines the scanner yields are processed in order; when the loop ends, the
  seven tables of \<open>tables\<close> are handed to the renderer, in this order. The join table of
  attributes and translations is not among them.
\<close>

definition parse :: "string list \<Rightarrow> error + state" where
  "parse ls = (case initState of Inl e \<Rightarrow> Inl e | Inr st \<Rightarrow> processLines st ls)"

definition tables :: "state \<Rightarrow> Table list" where
  "tables st =
     [wordsTable st, dictionariesTable st, languagesTable st, translationsTable st,
      gramTypeTable st, gramTypeTranslationTable st, translationAttributesTable st]"

definition main :: "string list \<Rightarrow> error + Table list" where
  "main ls = (case parse ls of Inl e \<Rightarrow> Inl e | Inr st \<Rightarrow> Inr (tables st))"

section \<open>Observations and invariants\<close>

text \<open>
  The rows of one store at the end of a run. A row's identity is its position in the list,
  counted from 1.
\<close>

definition storeRows :: "(state \<Rightarrow> Table) \<Rightarrow> error + state \<Rightarrow> error + string list list" where
  "storeRows tbl r = (case r of Inl e \<Rightarrow> Inl e | Inr st \<Rightarrow> Inr (rows (tbl st)))"

text \<open>
  A table with \<open>n\<close> columns whose unique columns are columns of the table, as
  \<open>NewTable\<close> and \<open>SetUniqueCols\<close> leave it; and the eight tables of \<open>main\<close> with the
  column counts of their declarations.
\<close>

definition okTable :: "nat \<Rightarrow> Table \<Rightarrow> bool" where
  "okTable n t = (length (columns t) = n \<and> list_all (\<lambda>i. i < n) (uniqueColIndices t))"

definition wellFormed :: "state \<Rightarrow> bool" where
  "wellFormed st =
     (okTable 3 (wordsTable st) \<and> okTable 1 (dictionariesTable st) \<and>
      okTable 2 (translationsTable st) \<and> okTable 1 (gramTypeTable st) \<and>
      okTable 2 (gramTypeTranslationTable st) \<and> okTable 1 (translationAttributesTable st) \<and>
      okTable 2 (translationAttributesToTranslationsTable st) \<and>
      okTable 1 (languagesTable st))"

fun isValidationError :: "error \<Rightarrow> bool" where
  "isValidationError NotBeginningWithSpaces = True"
| "isValidationError (NoExpectedTag l) = True"
| "isValidationError e = False"

text \<open>
  A line that the loop, in state \<open>st\<close>, takes for a body line: it is not blank, no header
  test accepts it and it is no headword.
\<close>

definition reachesBody :: "state \<Rightarrow> string \<Rightarrow> bool" where
  "reachesBody st line =
     (TrimSpace line \<noteq> [] \<and>
      header (dicName st) ''#NAME'' line = None \<and>
      header (langFromName st) ''#INDEX_LANGUAGE'' line = None \<and>
      header (langToName st) ''#CONTENTS_LANGUAGE'' line = None \<and>
      scanWordArticleTitle line = [])"

text \<open>
  A line that is a headword whatever the state: not blank, matched by no header pattern,
  and with a title.
\<close>

definition isHeadword :: "string \<Rightarrow> bool" where
  "isHeadword line =
     (TrimSpace line \<noteq> [] \<and>
      scanTitle ''#NAME'' line = None \<and>
      scanTitle ''#INDEX_LANGUAGE'' line = None \<and>
      scanTitle ''#CONTENTS_LANGUAGE'' line = None \<and>
      scanWordArticleTitle line \<noteq> [])"

text \<open>
  The translation extractor as the specification words it: the capture ends at the first
  closing tag. It differs from \<open>translationPattern\<close> in the star only.
\<close>

definition translationPatternNonGreedy :: regex where
  "translationPatternNonGreedy =
     seq [lit ''[trn]'', Group 1 (LazyStar (Sym Dot)), lit ''[/trn]'']"

definition extractTranslationNonGreedy :: "string \<Rightarrow> string" where
  "extractTranslationNonGreedy inputLine =
     (case FindStringSubmatch translationPatternNonGreedy inputLine of
        Some res \<Rightarrow> cleanupLine (res 1)
      | None \<Rightarrow> [])"

text \<open>
  The cleaning of a fragment in words. Stripping the tags: a \<open>[\<close> that has a \<open>]\<close> after
  it is removed together with the text up to the first such \<open>]\<close>; any other character
  is kept. Collapsing the white space: two or more successive characters of \<open>\s\<close> become
  one space; a single one is kept as it is.
\<close>

function stripTags :: "string \<Rightarrow> string" where
  "stripTags [] = []"
| "stripTags (c # s) =
     (if c = CHR ''['' \<and> CHR '']'' \<in> set s
      then stripTags (tl (dropWhile (\<lambda>x. x \<noteq> CHR '']'') s))
      else c # stripTags s)"
  by pat_completeness auto
termination
proof (relation "measure length")
  show "wf (measure length)" by simp
next
  fix c :: char and s :: string
  have "length (tl (dropWhile (\<lambda>x. x \<noteq> CHR '']'') s)) \<le> length s"
    using length_dropWhile_le [of "\<lambda>x. x \<noteq> CHR '']''" s] by simp
  then show "(tl (dropWhile (\<lambda>x. x \<noteq> CHR '']'') s), c # s) \<in> measure length" by simp
next
  fix c :: char and s :: string
  show "(s, c # s) \<in> measure length" by simp
qed

function collapseSpaces :: "string \<Rightarrow> string" where
  "collapseSpaces [] = []"
| "collapseSpaces [c] = [c]"
| "collapseSpaces (c # d # s) =
     (if c \<in> set perlSpace \<and> d \<in> set perlSpace
      then CHR '' '' # collapseSpaces (dropWhile (\<lambda>x. x \<in> set perlSpace) s)
      else c # collapseSpaces (d # s))"
  by pat_completeness auto
termination
proof (relation "measure length")
  show "wf (measure length)" by simp
next
  fix c d :: char and s :: string
  show "(dropWhile (\<lambda>x. x \<in> set perlSpace) s, c # d # s) \<in> measure length"
    using length_dropWhile_le [of "\<lambda>x. x \<in> set perlSpace" s] by simp
next
  fix c d :: char and s :: string
  show "(d # s, c # d # s) \<in> measure length" by simp
qed

text \<open>
  Two stores to insert into: the languages store and the translations store as \<open>main\<close>
  declares them.
\<close>

definition emptyLanguages :: Table where
  "emptyLanguages = snd (SetUniqueCols [''name''] (NewTable ''languages'' [''name'']))"

definition emptyTranslations :: Table where
  "emptyTranslations =
     snd (SetUniqueCols [''word_from_id'', ''word_to_id'']
            (NewTable ''translations'' [''word_from_id'', ''word_to_id'']))"

text \<open>A sequence of inserts into one table; the identities returned are dropped.\<close>

fun addRows :: "val list list \<Rightarrow> Table \<Rightarrow> Table" where
  "addRows [] t = t"
| "addRows (row # rws) t = addRows rws (snd (AddRow row t))"

section \<open>The entity store: inserts\<close>

lemma concatUnique_Inr_iff:
  "(\<exists>k. concatUnique is row = Inr k) \<longleftrightarrow> list_all (\<lambda>i. i < length row) is"
  by (induction "is") (auto split: sum.splits)

lemma AddRow_plain:
  "uniqueColIndices t = [] \<Longrightarrow> length row = length (columns t) \<Longrightarrow>
   AddRow row t =
     (Inr (counter t + 1), t\<lparr>rows := rows t @ [map Sprint row], counter := counter t + 1\<rparr>)"
  by (simp add: AddRow_def Let_def appendRow_def)

lemma AddRow_fresh:
  assumes "uniqueColIndices t \<noteq> []" and "length row = length (columns t)"
    and "concatUnique (uniqueColIndices t) row = Inr k" and "uniqueValues t k = None"
  shows "AddRow row t =
           (Inr (counter t + 1),
            t\<lparr>uniqueValues := (uniqueValues t)(k \<mapsto> counter t + 1),
              rows := rows t @ [map Sprint row], counter := counter t + 1\<rparr>)"
  using assms by (simp add: AddRow_def Let_def appendRow_def)

lemma AddRow_known:
  assumes "uniqueColIndices t \<noteq> []" and "length row = length (columns t)"
    and "concatUnique (uniqueColIndices t) row = Inr k" and "uniqueValues t k = Some i"
  shows "AddRow row t = (Inr i, t)"
  using assms by (simp add: AddRow_def Let_def)

lemma addRows_plain:
  assumes "uniqueColIndices t = []" and "list_all (\<lambda>row. length row = length (columns t)) rws"
  shows "addRows rws t =
           t\<lparr>rows := rows t @ map (map Sprint) rws, counter := counter t + of_nat (length rws)\<rparr>"
  using assms
proof (induction rws arbitrary: t)
  case Nil
  then show ?case by simp
next
  case (Cons row rws)
  then show ?case by (simp add: AddRow_plain)
qed


text \<open>
  Claim C6. In a store with a unique key, let a composite key that the store does not
  hold yet be inserted twice, by two rows with that key. Both inserts return the same
  identity, the next one of the store; the first insert appends its row and records the
  key, the second changes nothing; so the row count grows by exactly one across the two
  inserts, not by two.
\<close>

theorem AddRow_same_key_twice:
  assumes "uniqueColIndices t \<noteq> []"
    and "length row = length (columns t)" and "length row' = length (columns t)"
    and "concatUnique (uniqueColIndices t) row = Inr k"
    and "concatUnique (uniqueColIndices t) row' = Inr k"
    and "uniqueValues t k = None"
  shows "\<exists>i t1. AddRow row t = (Inr i, t1) \<and> AddRow row' t1 = (Inr i, t1) \<and>
           i = counter t + 1 \<and> uniqueValues t1 k = Some i \<and>
           rows t1 = rows t @ [map Sprint row] \<and>
           length (rows t1) = length (rows t) + 1"
proof -
  let ?t1 = "t\<lparr>uniqueValues := (uniqueValues t)(k \<mapsto> counter t + 1),
              rows := rows t @ [map Sprint row], counter := counter t + 1\<rparr>"
  have first: "AddRow row t = (Inr (counter t + 1), ?t1)"
    using assms by (intro AddRow_fresh)
  have second: "AddRow row' ?t1 = (Inr (counter t + 1), ?t1)"
    using assms by (intro AddRow_known [where k = k]) simp_all
  show ?thesis using first second by simp
qed

text \<open>
  The theorem at the empty languages store and the row \<open>("English")\<close>: both inserts
  return identity 1 and the store holds the one row.
\<close>

theorem AddRow_same_key_twice_witness:
  "uniqueColIndices emptyLanguages \<noteq> [] \<and>
   length [VStr ''English''] = length (columns emptyLanguages) \<and>
   concatUnique (uniqueColIndices emptyLanguages) [VStr ''English''] = Inr ''English'' \<and>
   uniqueValues emptyLanguages ''English'' = None \<and>
   fst (AddRow [VStr ''English''] emptyLanguages) = Inr 1 \<and>
   rows (snd (AddRow [VStr ''English''] emptyLanguages)) = [[''English'']] \<and>
   AddRow [VStr ''English''] (snd (AddRow [VStr ''English''] emptyLanguages))
     = (Inr 1, snd (AddRow [VStr ''English''] emptyLanguages))"
  using AddRow_same_key_twice
    [of emptyLanguages "[VStr ''English'']" "[VStr ''English'']" "''English''"]
  by (auto simp: emptyLanguages_def NewTable_def)

text \<open>
  Claim C7. The Word store has the columns \<open>word\<close>, \<open>dic_id\<close>, \<open>lang_id\<close> and no unique
  key. Two inserts of the same (text, dictionary id, language id), with any inserts of
  other rows between them, return two distinct identities, and the store gains two rows
  with those values. The identities are 64-bit counters; the bound on the number of rows
  between the two inserts always holds, since a Go slice has fewer than \<open>2 ^ 63\<close>
  elements.
\<close>

theorem words_never_deduplicated:
  assumes "columns t = [''word'', ''dic_id'', ''lang_id'']" and "uniqueColIndices t = []"
    and "list_all (\<lambda>row. length row = 3) between" and "length between < 2 ^ 64 - 1"
  shows "\<exists>i1 t1 i2 t2.
           AddRow [VStr w, VInt d, VInt l] t = (Inr i1, t1) \<and>
           AddRow [VStr w, VInt d, VInt l] (addRows between t1) = (Inr i2, t2) \<and>
           i1 \<noteq> i2 \<and>
           rows t2 = rows t @ [map Sprint [VStr w, VInt d, VInt l]] @ map (map Sprint) between @
                     [map Sprint [VStr w, VInt d, VInt l]]"
proof -
  let ?row = "[VStr w, VInt d, VInt l]"
  let ?t1 = "t\<lparr>rows := rows t @ [map Sprint ?row], counter := counter t + 1\<rparr>"
  define tm where "tm = addRows between ?t1"
  have first: "AddRow ?row t = (Inr (counter t + 1), ?t1)"
    using assms(1,2) by (simp add: AddRow_plain)
  have tm: "tm = ?t1\<lparr>rows := rows ?t1 @ map (map Sprint) between,
                       counter := counter ?t1 + of_nat (length between)\<rparr>"
    unfolding tm_def using assms(1,2,3)
    by (intro addRows_plain) (simp_all add: numeral_3_eq_3)
  have second: "AddRow ?row tm =
      (Inr (counter tm + 1), tm\<lparr>rows := rows tm @ [map Sprint ?row], counter := counter tm + 1\<rparr>)"
    using assms(1,2) by (intro AddRow_plain) (simp_all add: tm)
  have "of_nat (Suc (length between)) \<noteq> (0 :: int64)"
    using assms(4) by (intro of_nat_neq_0) simp_all
  then have distinct: "counter t + 1 \<noteq> counter tm + 1"
    by (simp add: tm add.assoc)
  have "rows tm @ [map Sprint ?row] =
      rows t @ [map Sprint ?row] @ map (map Sprint) between @ [map Sprint ?row]"
    by (simp add: tm)
  with first second distinct show ?thesis
    unfolding tm_def by simp
qed

text \<open>
  The theorem at the empty Word store and the row \<open>("cat", 1, 1)\<close>, inserted before and
  after the row \<open>("chat", 1, 2)\<close>.
\<close>

theorem words_never_deduplicated_witness:
  "columns (NewTable ''words'' [''word'', ''dic_id'', ''lang_id''])
     = [''word'', ''dic_id'', ''lang_id''] \<and>
   uniqueColIndices (NewTable ''words'' [''word'', ''dic_id'', ''lang_id'']) = [] \<and>
   list_all (\<lambda>row. length row = 3) [[VStr ''chat'', VInt 1, VInt 2]] \<and>
   length [[VStr ''chat'', VInt 1, VInt 2]] < 2 ^ 64 - 1 \<and>
   (\<exists>i1 t1 i2 t2.
      AddRow [VStr ''cat'', VInt 1, VInt 1] (NewTable ''words'' [''word'', ''dic_id'', ''lang_id''])
        = (Inr i1, t1) \<and>
      AddRow [VStr ''cat'', VInt 1, VInt 1] (addRows [[VStr ''chat'', VInt 1, VInt 2]] t1)
        = (Inr i2, t2) \<and>
      i1 \<noteq> i2 \<and>
      rows t2 = [[''cat'', ''1'', ''1''], [''chat'', ''1'', ''2''], [''cat'', ''1'', ''1'']])"
  using words_never_deduplicated
    [of "NewTable ''words'' [''word'', ''dic_id'', ''lang_id'']"
        "[[VStr ''chat'', VInt 1, VInt 2]]" "''cat''" 1 1]
  by (simp add: NewTable_def FormatInt_def digits.simps)

text \<open>
  Claim C8. An insert whose number of values differs from the number of columns of the
  store panics with the configuration error that names both counts; no row is added and
  the store is left as it was.
\<close>

theorem AddRow_columns_mismatch:
  "length row \<noteq> length (columns t) \<Longrightarrow>
   AddRow row t = (Inl (ColumnsCountMismatch (length row) (length (columns t))), t)"
  by (simp add: AddRow_def Let_def)

text \<open>The theorem at the empty Word store and a row of two values.\<close>

theorem AddRow_columns_mismatch_witness:
  "length [VStr ''cat'', VInt 1]
     \<noteq> length (columns (NewTable ''words'' [''word'', ''dic_id'', ''lang_id''])) \<and>
   AddRow [VStr ''cat'', VInt 1] (NewTable ''words'' [''word'', ''dic_id'', ''lang_id''])
     = (Inl (ColumnsCountMismatch 2 3), NewTable ''words'' [''word'', ''dic_id'', ''lang_id''])"
  using AddRow_columns_mismatch
    [of "[VStr ''cat'', VInt 1]" "NewTable ''words'' [''word'', ''dic_id'', ''lang_id'']"]
  by (simp add: NewTable_def)

text \<open>
  Claim C10. In the Translation store the key of a pair of identities is the decimal
  rendering of the first followed at once by that of the second. When two pairs have the
  same concatenation, the insert of the first pair records that key with its identity
  (the next identity of the store, with the row of the first pair appended, when the key
  is new), and the insert of the second pair returns the identity of the first and adds
  no row.
\<close>

theorem translation_key_has_no_separator:
  assumes "columns t = [''word_from_id'', ''word_to_id'']" and "uniqueColIndices t = [0, 1]"
    and "FormatInt (sint a) @ FormatInt (sint b) = FormatInt (sint c) @ FormatInt (sint d)"
  shows "concatUnique (uniqueColIndices t) [VInt a, VInt b]
           = Inr (FormatInt (sint a) @ FormatInt (sint b)) \<and>
         concatUnique (uniqueColIndices t) [VInt c, VInt d]
           = Inr (FormatInt (sint a) @ FormatInt (sint b)) \<and>
         (\<exists>i t1. AddRow [VInt a, VInt b] t = (Inr i, t1) \<and>
                  AddRow [VInt c, VInt d] t1 = (Inr i, t1) \<and>
                  uniqueValues t1 (FormatInt (sint a) @ FormatInt (sint b)) = Some i \<and>
                  i = (case uniqueValues t (FormatInt (sint a) @ FormatInt (sint b)) of
                         None \<Rightarrow> counter t + 1 | Some j \<Rightarrow> j) \<and>
                  rows t1 = rows t @
                    (case uniqueValues t (FormatInt (sint a) @ FormatInt (sint b)) of
                       None \<Rightarrow> [[FormatInt (sint a), FormatInt (sint b)]] | Some j \<Rightarrow> []))"
proof -
  let ?k = "FormatInt (sint a) @ FormatInt (sint b)"
  have k1: "concatUnique (uniqueColIndices t) [VInt a, VInt b] = Inr ?k"
    and k2: "concatUnique (uniqueColIndices t) [VInt c, VInt d] = Inr ?k"
    using assms by simp_all
  have u: "uniqueColIndices t \<noteq> []" using assms(2) by simp
  have l1: "length [VInt a, VInt b] = length (columns t)"
    and l2: "length [VInt c, VInt d] = length (columns t)" using assms(1) by simp_all
  show ?thesis
  proof (cases "uniqueValues t ?k")
    case None
    let ?t1 = "t\<lparr>uniqueValues := (uniqueValues t)(?k \<mapsto> counter t + 1),
                rows := rows t @ [map Sprint [VInt a, VInt b]], counter := counter t + 1\<rparr>"
    have first: "AddRow [VInt a, VInt b] t = (Inr (counter t + 1), ?t1)"
      using u l1 k1 None by (rule AddRow_fresh)
    have second: "AddRow [VInt c, VInt d] ?t1 = (Inr (counter t + 1), ?t1)"
      using u l2 k2 by (intro AddRow_known [where k = ?k]) simp_all
    show ?thesis using first second k1 k2 None by simp
  next
    case (Some j)
    have "AddRow [VInt a, VInt b] t = (Inr j, t)" and "AddRow [VInt c, VInt d] t = (Inr j, t)"
      using u l1 l2 k1 k2 Some by (auto intro: AddRow_known)
    then show ?thesis using k1 k2 Some by simp
  qed
qed

text \<open>
  The theorem at the empty Translation store and the distinct pairs (1, 23) and (12, 3):
  both have the key \<open>123\<close>; the first insert returns identity 1 and stores the row
  (1, 23); the second returns identity 1 and leaves the store as it is.
\<close>

theorem translation_key_has_no_separator_witness:
  "(1 :: int64, 23 :: int64) \<noteq> (12, 3) \<and>
   columns emptyTranslations = [''word_from_id'', ''word_to_id''] \<and>
   uniqueColIndices emptyTranslations = [0, 1] \<and>
   FormatInt (sint (1 :: int64)) @ FormatInt (sint (23 :: int64)) = ''123'' \<and>
   FormatInt (sint (12 :: int64)) @ FormatInt (sint (3 :: int64)) = ''123'' \<and>
   concatUnique (uniqueColIndices emptyTranslations) [VInt 1, VInt 23] = Inr ''123'' \<and>
   concatUnique (uniqueColIndices emptyTranslations) [VInt 12, VInt 3] = Inr ''123'' \<and>
   fst (AddRow [VInt 1, VInt 23] emptyTranslations) = Inr 1 \<and>
   rows (snd (AddRow [VInt 1, VInt 23] emptyTranslations)) = [[''1'', ''23'']] \<and>
   uniqueValues (snd (AddRow [VInt 1, VInt 23] emptyTranslations)) ''123'' = Some 1 \<and>
   AddRow [VInt 12, VInt 3] (snd (AddRow [VInt 1, VInt 23] emptyTranslations))
     = (Inr 1, snd (AddRow [VInt 1, VInt 23] emptyTranslations))"
  using translation_key_has_no_separator [of emptyTranslations 1 23 12 3]
  by (auto simp: emptyTranslations_def NewTable_def FormatInt_def digits.simps)

section \<open>The parse loop keeps the tables well formed\<close>

text \<open>
  \<open>main\<close> always passes as many values as the table has columns, so no insert of the loop
  panics, and the only errors of a run are those of \<open>validateBodyLine\<close>.
\<close>

lemma AddRow_okTable:
  assumes "okTable n t" and "length row = n"
  shows "\<exists>i t'. AddRow row t = (Inr i, t') \<and> okTable n t'"
proof (cases "uniqueColIndices t = []")
  case True
  then show ?thesis using assms by (simp add: AddRow_plain okTable_def)
next
  case False
  from assms have "list_all (\<lambda>i. i < length row) (uniqueColIndices t)"
    by (simp add: okTable_def)
  then obtain k where k: "concatUnique (uniqueColIndices t) row = Inr k"
    using concatUnique_Inr_iff by blast
  show ?thesis
  proof (cases "uniqueValues t k")
    case None
    then show ?thesis using assms False k by (simp add: AddRow_fresh okTable_def)
  next
    case (Some i)
    then show ?thesis using assms False k by (simp add: AddRow_known okTable_def)
  qed
qed

lemma AddRow_keeps_okTable:
  "AddRow row t = (r, t') \<Longrightarrow> okTable n t \<Longrightarrow> length row = n \<Longrightarrow> okTable n t'"
  using AddRow_okTable [of n t row] by auto

lemma initState_wellFormed: "\<exists>st. initState = Inr st \<and> wellFormed st"
  by (simp add: initState_def withTable_def uniqueTable_def NewTable_def wellFormed_def okTable_def)

lemma addAttribute_ok:
  assumes "wellFormed st" and "note \<noteq> []"
  shows "\<exists>st' aid ta jid tat.
           addAttribute note st = Inr st' \<and> wellFormed st' \<and>
           AddRow [VStr note] (translationAttributesTable st) = (Inr aid, ta) \<and>
           AddRow [VInt aid, VInt (translationId st)]
             (translationAttributesToTranslationsTable st) = (Inr jid, tat) \<and>
           translationAttributesTable st' = ta \<and>
           translationAttributesToTranslationsTable st' = tat \<and>
           translationId st' = translationId st \<and> attributeId st' = 0"
proof -
  from assms(1) have a: "okTable 1 (translationAttributesTable st)"
    and j: "okTable 2 (translationAttributesToTranslationsTable st)"
    by (simp_all add: wellFormed_def)
  from AddRow_okTable [OF a, of "[VStr note]"]
  obtain aid ta where 1: "AddRow [VStr note] (translationAttributesTable st) = (Inr aid, ta)"
    and 2: "okTable 1 ta" by auto
  from AddRow_okTable [OF j, of "[VInt aid, VInt (translationId st)]"]
  obtain jid tat where 3: "AddRow [VInt aid, VInt (translationId st)]
      (translationAttributesToTranslationsTable st) = (Inr jid, tat)"
    and 4: "okTable 2 tat" by auto
  show ?thesis using assms 1 2 3 4 by (simp add: addAttribute_def wellFormed_def)
qed

lemma addAttribute_none: "addAttribute [] st = Inr st"
  by (simp add: addAttribute_def)

lemma addTranslation_ok:
  assumes "wellFormed st"
  shows "\<exists>st' wid wt tid tt.
           addTranslation translation note st = Inr st' \<and> wellFormed st' \<and>
           AddRow [VStr translation, VInt (dicId st), VInt (langToId st)] (wordsTable st)
             = (Inr wid, wt) \<and>
           AddRow [VInt (wordFromId st), VInt wid] (translationsTable st) = (Inr tid, tt) \<and>
           translationId st' = tid \<and>
           addAttribute note (st\<lparr>wordsTable := wt, wordToId := wid,
                                  translationsTable := tt, translationId := tid\<rparr>)
             = Inr (st'\<lparr>gramTypeTranslationTable := gramTypeTranslationTable st\<rparr>)"
proof -
  from assms have w: "okTable 3 (wordsTable st)" and t: "okTable 2 (translationsTable st)"
    by (simp_all add: wellFormed_def)
  from AddRow_okTable [OF w, of "[VStr translation, VInt (dicId st), VInt (langToId st)]"]
  obtain wid wt where 1: "AddRow [VStr translation, VInt (dicId st), VInt (langToId st)]
      (wordsTable st) = (Inr wid, wt)" and 2: "okTable 3 wt" by auto
  from AddRow_okTable [OF t, of "[VInt (wordFromId st), VInt wid]"]
  obtain tid tt where 3: "AddRow [VInt (wordFromId st), VInt wid] (translationsTable st)
      = (Inr tid, tt)" and 4: "okTable 2 tt" by auto
  let ?st1 = "st\<lparr>wordsTable := wt, wordToId := wid, translationsTable := tt, translationId := tid\<rparr>"
  have wf1: "wellFormed ?st1" using assms 2 4 by (simp add: wellFormed_def)
  have "\<exists>st2. addAttribute note ?st1 = Inr st2 \<and> wellFormed st2 \<and> translationId st2 = tid
     \<and> gramTypeTranslationTable st2 = gramTypeTranslationTable st"
  proof (cases "note = []")
    case True
    then show ?thesis using wf1 by (simp add: addAttribute_none)
  next
    case False
    from addAttribute_ok [OF wf1 False] show ?thesis
      by (auto simp: addAttribute_def split: prod.splits sum.splits)
  qed
  then obtain st2 where 5: "addAttribute note ?st1 = Inr st2" and 6: "wellFormed st2"
    and 7: "translationId st2 = tid" and 8: "gramTypeTranslationTable st2 = gramTypeTranslationTable st" by blast
  have "\<exists>st'. addGramTypeLink st2 = Inr st' \<and> wellFormed st' \<and> translationId st' = tid \<and>
       st'\<lparr>gramTypeTranslationTable := gramTypeTranslationTable st\<rparr> = st2"
  proof (cases "word_sless 0 (gramTypeId st2)")
    case True
    from 6 have "okTable 2 (gramTypeTranslationTable st2)" by (simp add: wellFormed_def)
    from AddRow_okTable [OF this, of "[VInt (gramTypeId st2), VInt (translationId st2)]"]
    obtain i t' where "AddRow [VInt (gramTypeId st2), VInt (translationId st2)] (gramTypeTranslationTable st2) = (Inr i, t')"
      and "okTable 2 t'" by auto
    then show ?thesis using 6 7 8 True by (simp add: addGramTypeLink_def wellFormed_def)
  next
    case False
    then show ?thesis using 6 7 8 by (simp add: addGramTypeLink_def)
  qed
  then obtain st' where 9: "addGramTypeLink st2 = Inr st'" and 10: "wellFormed st'"
    and 11: "translationId st' = tid" and 12: "st'\<lparr>gramTypeTranslationTable := gramTypeTranslationTable st\<rparr> = st2"
    by blast
  have "addTranslation translation note st = Inr st'"
    using 1 3 5 9 by (simp add: addTranslation_def)
  then show ?thesis using 1 3 5 10 11 12 by auto
qed

lemma bodyLine_ok:
  assumes "wellFormed st"
  shows "case bodyLine st line of Inl e \<Rightarrow> isValidationError e | Inr st' \<Rightarrow> wellFormed st'"
proof (cases "validateBodyLine line")
  case (Some err)
  then have "isValidationError err"
    by (auto simp: validateBodyLine_def split: if_splits)
  with Some show ?thesis by (simp add: bodyLine_def)
next
  case None
  let ?note = "snd (extractNote line)" and ?tr = "extractTranslation line"
  consider (gram) "?note \<noteq> []" "?tr = []" | (trans) "?tr \<noteq> []" | (neither) "?note = []" "?tr = []"
    by blast
  then show ?thesis
  proof cases
    case gram
    from assms have "okTable 1 (gramTypeTable st)" by (simp add: wellFormed_def)
    from AddRow_okTable [OF this, of "[VStr ?note]"]
    obtain gid gt where "AddRow [VStr ?note] (gramTypeTable st) = (Inr gid, gt)" "okTable 1 gt"
      by auto
    then show ?thesis using None gram assms by (simp add: bodyLine_def wellFormed_def)
  next
    case trans
    from addTranslation_ok [OF assms, of ?tr ?note]
    obtain st' where "addTranslation ?tr ?note st = Inr st'" "wellFormed st'" by blast
    then show ?thesis using None trans by (simp add: bodyLine_def)
  next
    case neither
    then show ?thesis using None assms by (simp add: bodyLine_def)
  qed
qed

lemma headwordOrBody_ok:
  assumes "wellFormed st"
  shows "case headwordOrBody st line of Inl e \<Rightarrow> isValidationError e | Inr st' \<Rightarrow> wellFormed st'"
proof (cases "scanWordArticleTitle line = []")
  case True
  then show ?thesis using bodyLine_ok [OF assms, of line] by (simp add: headwordOrBody_def)
next
  case False
  from assms have "okTable 3 (wordsTable st)" by (simp add: wellFormed_def)
  from AddRow_okTable [OF this, of "[VStr (scanWordArticleTitle line), VInt (dicId st), VInt (langFromId st)]"]
  obtain wid wt where "AddRow [VStr (scanWordArticleTitle line), VInt (dicId st), VInt (langFromId st)]
     (wordsTable st) = (Inr wid, wt)" "okTable 3 wt" by auto
  then show ?thesis using False assms by (simp add: headwordOrBody_def wellFormed_def)
qed

lemma step_ok:
  assumes "wellFormed st"
  shows "case step st line of Inl e \<Rightarrow> isValidationError e | Inr st' \<Rightarrow> wellFormed st'"
proof -
  from assms have d: "okTable 1 (dictionariesTable st)" and l: "okTable 1 (languagesTable st)"
    by (simp_all add: wellFormed_def)
  have dict: "\<exists>i t. AddRow [VStr nm] (dictionariesTable st) = (Inr i, t) \<and> okTable 1 t" for nm
    using AddRow_okTable [OF d, of "[VStr nm]"] by simp
  have lang: "\<exists>i t. AddRow [VStr nm] (languagesTable st) = (Inr i, t) \<and> okTable 1 t" for nm
    using AddRow_okTable [OF l, of "[VStr nm]"] by simp
  show ?thesis
  proof (cases "TrimSpace line = []")
    case True
    then show ?thesis using assms by (simp add: step_def)
  next
    case blank: False
    show ?thesis
    proof (cases "header (dicName st) ''#NAME'' line")
      case (Some nm)
      from dict [of nm] obtain i t where "AddRow [VStr nm] (dictionariesTable st) = (Inr i, t)" "okTable 1 t"
        by blast
      then show ?thesis using blank Some assms by (simp add: step_def wellFormed_def)
    next
      case n1: None
      show ?thesis
      proof (cases "header (langFromName st) ''#INDEX_LANGUAGE'' line")
        case (Some nm)
        from lang [of nm] obtain i t where "AddRow [VStr nm] (languagesTable st) = (Inr i, t)" "okTable 1 t"
          by blast
        then show ?thesis using blank n1 Some assms by (simp add: step_def wellFormed_def)
      next
        case n2: None
        show ?thesis
        proof (cases "header (langToName st) ''#CONTENTS_LANGUAGE'' line")
          case (Some nm)
          from lang [of nm] obtain i t where "AddRow [VStr nm] (languagesTable st) = (Inr i, t)" "okTable 1 t"
            by blast
          then show ?thesis using blank n1 n2 Some assms by (simp add: step_def wellFormed_def)
        next
          case None
          then show ?thesis using blank n1 n2 headwordOrBody_ok [OF assms, of line]
            by (simp add: step_def)
        qed
      qed
    qed
  qed
qed

lemma step_reachesBody: "reachesBody st line \<Longrightarrow> step st line = bodyLine st line"
  by (simp add: reachesBody_def step_def headwordOrBody_def)

lemma processLines_aborts:
  assumes "wellFormed st" and "line \<in> set ls"
    and "\<And>st'. \<exists>e. step st' line = Inl e"
  shows "\<exists>e. processLines st ls = Inl e \<and> isValidationError e"
  using assms(1,2)
proof (induction ls arbitrary: st)
  case Nil
  then show ?case by simp
next
  case (Cons l ls)
  show ?case
  proof (cases "step st l")
    case (Inl e)
    then show ?thesis using step_ok [OF Cons.prems(1), of l] by simp
  next
    case (Inr st')
    then have wf: "wellFormed st'" using step_ok [OF Cons.prems(1), of l] by simp
    have "l \<noteq> line" using Inr assms(3) [of st] by auto
    then have "line \<in> set ls" using Cons.prems(2) by simp
    from Cons.IH [OF wf this] show ?thesis using Inr by simp
  qed
qed

section \<open>Evaluating the extractors and the loop on given lines\<close>

lemmas line_eval = header_def scanTitle_def headerPattern_def FindStringSubmatch_def
  TrimSpace_def unicodeSpaces_def stripLeading.simps perlSpace_def scanWordArticleTitle_def
  titlePattern_def FindString_def validateBodyLine_def leadingSpacesPattern_def MatchString_def
  Plus_def expectedTags_def extractNote_def extractTranslation_def notePattern_def
  translationPattern_def Opt_def cleanupLine_def ReplaceAllString_def replaceFrom.simps
  tagPattern_def spacesPattern_def AtLeast2_def

lemmas store_eval = storeRows_def parse_def main_def tables_def initState_def withTable_def
  uniqueTable_def NewTable_def AddRow_def appendRow_def addTranslation_def addAttribute_def
  addGramTypeLink_def FormatInt_def digits.simps Let_def word_sless_alt

lemmas loop_eval = step_def header_def headwordOrBody_def bodyLine_def isHeadword_def

lemma line_cat: "isHeadword ''cat''" "scanWordArticleTitle ''cat'' = ''cat''"
  by (simp_all add: isHeadword_def line_eval)

lemma line_noun_foo:
  "TrimSpace '' [p]noun[/p][trn]foo[/trn]'' \<noteq> []"
  "scanTitle ''#NAME'' '' [p]noun[/p][trn]foo[/trn]'' = None"
  "scanTitle ''#INDEX_LANGUAGE'' '' [p]noun[/p][trn]foo[/trn]'' = None"
  "scanTitle ''#CONTENTS_LANGUAGE'' '' [p]noun[/p][trn]foo[/trn]'' = None"
  "scanWordArticleTitle '' [p]noun[/p][trn]foo[/trn]'' = []"
  "validateBodyLine '' [p]noun[/p][trn]foo[/trn]'' = None"
  "extractNote '' [p]noun[/p][trn]foo[/trn]'' = ([], ''noun'')"
  "extractTranslation '' [p]noun[/p][trn]foo[/trn]'' = ''foo''"
  by (simp_all add: line_eval)

lemma line_bar:
  "TrimSpace '' [trn]bar[/trn]'' \<noteq> []"
  "scanTitle ''#NAME'' '' [trn]bar[/trn]'' = None"
  "scanTitle ''#INDEX_LANGUAGE'' '' [trn]bar[/trn]'' = None"
  "scanTitle ''#CONTENTS_LANGUAGE'' '' [trn]bar[/trn]'' = None"
  "scanWordArticleTitle '' [trn]bar[/trn]'' = []"
  "validateBodyLine '' [trn]bar[/trn]'' = None"
  "extractNote '' [trn]bar[/trn]'' = ([], [])"
  "extractTranslation '' [trn]bar[/trn]'' = ''bar''"
  by (simp_all add: line_eval)

lemma line_noun:
  "TrimSpace '' [p]noun[/p]'' \<noteq> []"
  "scanTitle ''#NAME'' '' [p]noun[/p]'' = None"
  "scanTitle ''#INDEX_LANGUAGE'' '' [p]noun[/p]'' = None"
  "scanTitle ''#CONTENTS_LANGUAGE'' '' [p]noun[/p]'' = None"
  "scanWordArticleTitle '' [p]noun[/p]'' = []"
  "validateBodyLine '' [p]noun[/p]'' = None"
  "extractNote '' [p]noun[/p]'' = ([], ''noun'')"
  "extractTranslation '' [p]noun[/p]'' = []"
  by (simp_all add: line_eval)

lemma line_foo:
  "TrimSpace '' [trn]foo[/trn]'' \<noteq> []"
  "scanTitle ''#NAME'' '' [trn]foo[/trn]'' = None"
  "scanTitle ''#INDEX_LANGUAGE'' '' [trn]foo[/trn]'' = None"
  "scanTitle ''#CONTENTS_LANGUAGE'' '' [trn]foo[/trn]'' = None"
  "scanWordArticleTitle '' [trn]foo[/trn]'' = []"
  "validateBodyLine '' [trn]foo[/trn]'' = None"
  "extractNote '' [trn]foo[/trn]'' = ([], [])"
  "extractTranslation '' [trn]foo[/trn]'' = ''foo''"
  by (simp_all add: line_eval)

lemma line_red_adj:
  "TrimSpace '' [p][c red]adj[/p][trn]x[/trn]'' \<noteq> []"
  "scanTitle ''#NAME'' '' [p][c red]adj[/p][trn]x[/trn]'' = None"
  "scanTitle ''#INDEX_LANGUAGE'' '' [p][c red]adj[/p][trn]x[/trn]'' = None"
  "scanTitle ''#CONTENTS_LANGUAGE'' '' [p][c red]adj[/p][trn]x[/trn]'' = None"
  "scanWordArticleTitle '' [p][c red]adj[/p][trn]x[/trn]'' = []"
  "validateBodyLine '' [p][c red]adj[/p][trn]x[/trn]'' = None"
  "extractNote '' [p][c red]adj[/p][trn]x[/trn]'' = (''red'', ''adj'')"
  "extractTranslation '' [p][c red]adj[/p][trn]x[/trn]'' = ''x''"
  by (simp_all add: line_eval)

lemma line_name_A:
  "TrimSpace ''#NAME \"A\"'' \<noteq> []"
  "scanTitle ''#NAME'' ''#NAME \"A\"'' = Some ''A''"
  by (simp_all add: line_eval)

lemma line_name_B:
  "TrimSpace ''#NAME \"B\"'' \<noteq> []"
  "scanTitle ''#NAME'' ''#NAME \"B\"'' = Some ''B''"
  "scanTitle ''#INDEX_LANGUAGE'' ''#NAME \"B\"'' = None"
  "scanTitle ''#CONTENTS_LANGUAGE'' ''#NAME \"B\"'' = None"
  "scanWordArticleTitle ''#NAME \"B\"'' = ''#NAME \"B\"''"
  by (simp_all add: line_eval)

section \<open>Runs of the importer\<close>

text \<open>
  Claim C1, as amended. For the five-line input \<open>#NAME "TestDict"\<close>,
  \<open>#INDEX_LANGUAGE "English"\<close>, \<open>#CONTENTS_LANGUAGE "French"\<close>, \<open>cat\<close> and
  \<open> [p]n[/p][trn]chat[/trn]\<close> the run completes, and the stores hold exactly:
  Dictionary 1: TestDict; Language 1: English, 2: French; Word 1: (cat, 1, 1),
  2: (chat, 1, 2); Translation 1: (1, 2); TranslationAttribute 1: n;
  AttributeTranslation 1: (1, 1). GrammarType and GrammarTypeTranslation are empty: the
  note \<open>n\<close> stands on the line of a translation, so the loop stores it as an attribute of
  that translation and sets no grammar type.
\<close>

theorem end_to_end_stores:
  "storeRows dictionariesTable
     (parse [''#NAME \"TestDict\"'', ''#INDEX_LANGUAGE \"English\"'',
             ''#CONTENTS_LANGUAGE \"French\"'', ''cat'', '' [p]n[/p][trn]chat[/trn]''])
     = Inr [[''TestDict'']] \<and>
   storeRows languagesTable
     (parse [''#NAME \"TestDict\"'', ''#INDEX_LANGUAGE \"English\"'',
             ''#CONTENTS_LANGUAGE \"French\"'', ''cat'', '' [p]n[/p][trn]chat[/trn]''])
     = Inr [[''English''], [''French'']] \<and>
   storeRows wordsTable
     (parse [''#NAME \"TestDict\"'', ''#INDEX_LANGUAGE \"English\"'',
             ''#CONTENTS_LANGUAGE \"French\"'', ''cat'', '' [p]n[/p][trn]chat[/trn]''])
     = Inr [[''cat'', ''1'', ''1''], [''chat'', ''1'', ''2'']] \<and>
   storeRows gramTypeTable
     (parse [''#NAME \"TestDict\"'', ''#INDEX_LANGUAGE \"English\"'',
             ''#CONTENTS_LANGUAGE \"French\"'', ''cat'', '' [p]n[/p][trn]chat[/trn]''])
     = Inr [] \<and>
   storeRows translationsTable
     (parse [''#NAME \"TestDict\"'', ''#INDEX_LANGUAGE \"English\"'',
             ''#CONTENTS_LANGUAGE \"French\"'', ''cat'', '' [p]n[/p][trn]chat[/trn]''])
     = Inr [[''1'', ''2'']] \<and>
   storeRows gramTypeTranslationTable
     (parse [''#NAME \"TestDict\"'', ''#INDEX_LANGUAGE \"English\"'',
             ''#CONTENTS_LANGUAGE \"French\"'', ''cat'', '' [p]n[/p][trn]chat[/trn]''])
     = Inr [] \<and>
   storeRows translationAttributesTable
     (parse [''#NAME \"TestDict\"'', ''#INDEX_LANGUAGE \"English\"'',
             ''#CONTENTS_LANGUAGE \"French\"'', ''cat'', '' [p]n[/p][trn]chat[/trn]''])
     = Inr [[''n'']] \<and>
   storeRows translationAttributesToTranslationsTable
     (parse [''#NAME \"TestDict\"'', ''#INDEX_LANGUAGE \"English\"'',
             ''#CONTENTS_LANGUAGE \"French\"'', ''cat'', '' [p]n[/p][trn]chat[/trn]''])
     = Inr [[''1'', ''1'']]"
  by (simp add: line_eval store_eval loop_eval)

text \<open>
  Claim C1 as stated fails: after the run the GrammarType store is not \<open>{1: n}\<close> and the
  GrammarTypeTranslation store is not \<open>{1: (1, 1)}\<close>.
\<close>

theorem end_to_end_counterexample:
  "storeRows gramTypeTable
     (parse [''#NAME \"TestDict\"'', ''#INDEX_LANGUAGE \"English\"'',
             ''#CONTENTS_LANGUAGE \"French\"'', ''cat'', '' [p]n[/p][trn]chat[/trn]''])
     \<noteq> Inr [[''n'']] \<and>
   storeRows gramTypeTranslationTable
     (parse [''#NAME \"TestDict\"'', ''#INDEX_LANGUAGE \"English\"'',
             ''#CONTENTS_LANGUAGE \"French\"'', ''cat'', '' [p]n[/p][trn]chat[/trn]''])
     \<noteq> Inr [[''1'', ''1'']]"
  by (simp add: line_eval store_eval loop_eval)

text \<open>
  Claim C2, as amended. Let a headword line be followed by the body lines
  \<open> [p]noun[/p][trn]foo[/trn]\<close> and \<open> [trn]bar[/trn]\<close>. Both translations are stored,
  (1, 2) and (1, 3), but neither is linked to a grammar type: the note shares its line
  with a translation, so \<open>noun\<close> becomes the TranslationAttribute row linked to the first
  translation, and GrammarType and GrammarTypeTranslation stay empty. When the note stands
  on a body line of its own, \<open> [p]noun[/p]\<close>, before the lines \<open> [trn]foo[/trn]\<close> and
  \<open> [trn]bar[/trn]\<close>, the grammar type persists: both Translation rows are linked in
  GrammarTypeTranslation to the one GrammarType row \<open>noun\<close>.
\<close>

theorem note_beside_translation_is_attribute:
  assumes "isHeadword h"
  shows "storeRows translationsTable
           (parse [h, '' [p]noun[/p][trn]foo[/trn]'', '' [trn]bar[/trn]''])
           = Inr [[''1'', ''2''], [''1'', ''3'']] \<and>
         storeRows gramTypeTable
           (parse [h, '' [p]noun[/p][trn]foo[/trn]'', '' [trn]bar[/trn]'']) = Inr [] \<and>
         storeRows gramTypeTranslationTable
           (parse [h, '' [p]noun[/p][trn]foo[/trn]'', '' [trn]bar[/trn]'']) = Inr [] \<and>
         storeRows translationAttributesTable
           (parse [h, '' [p]noun[/p][trn]foo[/trn]'', '' [trn]bar[/trn]''])
           = Inr [[''noun'']] \<and>
         storeRows translationAttributesToTranslationsTable
           (parse [h, '' [p]noun[/p][trn]foo[/trn]'', '' [trn]bar[/trn]''])
           = Inr [[''1'', ''1'']] \<and>
         storeRows translationsTable
           (parse [h, '' [p]noun[/p]'', '' [trn]foo[/trn]'', '' [trn]bar[/trn]''])
           = Inr [[''1'', ''2''], [''1'', ''3'']] \<and>
         storeRows gramTypeTable
           (parse [h, '' [p]noun[/p]'', '' [trn]foo[/trn]'', '' [trn]bar[/trn]''])
           = Inr [[''noun'']] \<and>
         storeRows gramTypeTranslationTable
           (parse [h, '' [p]noun[/p]'', '' [trn]foo[/trn]'', '' [trn]bar[/trn]''])
           = Inr [[''1'', ''1''], [''1'', ''2'']]"
  using assms
  by (simp add: loop_eval store_eval line_noun_foo line_bar line_noun line_foo)

text \<open>The theorem at the headword \<open>cat\<close>.\<close>

theorem note_beside_translation_is_attribute_witness:
  "isHeadword ''cat'' \<and>
   storeRows translationsTable
     (parse [''cat'', '' [p]noun[/p][trn]foo[/trn]'', '' [trn]bar[/trn]''])
     = Inr [[''1'', ''2''], [''1'', ''3'']] \<and>
   storeRows translationAttributesTable
     (parse [''cat'', '' [p]noun[/p][trn]foo[/trn]'', '' [trn]bar[/trn]''])
     = Inr [[''noun'']] \<and>
   storeRows gramTypeTranslationTable
     (parse [''cat'', '' [p]noun[/p]'', '' [trn]foo[/trn]'', '' [trn]bar[/trn]''])
     = Inr [[''1'', ''1''], [''1'', ''2'']]"
  using note_beside_translation_is_attribute [of "''cat''"] line_cat(1) by simp

text \<open>
  Claim C2 as stated fails at the headword \<open>cat\<close>: no GrammarType row and no
  GrammarTypeTranslation row exists after the run.
\<close>

theorem grammar_persistence_counterexample:
  "storeRows gramTypeTable
     (parse [''cat'', '' [p]noun[/p][trn]foo[/trn]'', '' [trn]bar[/trn]'']) = Inr [] \<and>
   storeRows gramTypeTranslationTable
     (parse [''cat'', '' [p]noun[/p][trn]foo[/trn]'', '' [trn]bar[/trn]'']) = Inr []"
  using line_cat by (simp add: loop_eval store_eval line_noun_foo line_bar)

text \<open>
  Claim C3, as amended. On every valid body line on which a translation is extracted and
  the cleaned free text of the note is not empty, it is that cleaned text (the loop
  discards the qualifier value of \<open>[c value]\<close>) that is inserted, with deduplication, into
  the TranslationAttribute store; a join row of the resulting attribute identity and the
  identity of this line's translation is inserted, with deduplication, into
  AttributeTranslation; and the attribute identity is 0 again after the line, so it does
  not persist to later lines.
\<close>

theorem attribute_holds_note_text:
  assumes "wellFormed st" and "reachesBody st line" and "validateBodyLine line = None"
    and "extractTranslation line \<noteq> []" and "snd (extractNote line) \<noteq> []"
  shows "\<exists>st' wid wt tid tt aid ta jid tat.
           step st line = Inr st' \<and>
           AddRow [VStr (extractTranslation line), VInt (dicId st), VInt (langToId st)]
             (wordsTable st) = (Inr wid, wt) \<and>
           AddRow [VInt (wordFromId st), VInt wid] (translationsTable st) = (Inr tid, tt) \<and>
           AddRow [VStr (snd (extractNote line))] (translationAttributesTable st) = (Inr aid, ta) \<and>
           AddRow [VInt aid, VInt tid] (translationAttributesToTranslationsTable st)
             = (Inr jid, tat) \<and>
           wordsTable st' = wt \<and> translationsTable st' = tt \<and>
           translationAttributesTable st' = ta \<and>
           translationAttributesToTranslationsTable st' = tat \<and>
           translationId st' = tid \<and> attributeId st' = 0"
proof -
  let ?tr = "extractTranslation line" and ?note = "snd (extractNote line)"
  from addTranslation_ok [OF assms(1), of ?tr ?note]
  obtain st' wid wt tid tt where
    run: "addTranslation ?tr ?note st = Inr st'" and
    word: "AddRow [VStr ?tr, VInt (dicId st), VInt (langToId st)] (wordsTable st) = (Inr wid, wt)" and
    trans: "AddRow [VInt (wordFromId st), VInt wid] (translationsTable st) = (Inr tid, tt)" and
    tid: "translationId st' = tid" and
    attr: "addAttribute ?note (st\<lparr>wordsTable := wt, wordToId := wid,
          translationsTable := tt, translationId := tid\<rparr>)
        = Inr (st'\<lparr>gramTypeTranslationTable := gramTypeTranslationTable st\<rparr>)"
    by blast
  let ?st1 = "st\<lparr>wordsTable := wt, wordToId := wid, translationsTable := tt, translationId := tid\<rparr>"
  from assms(1) have ta: "okTable 1 (translationAttributesTable st)"
    and tj: "okTable 2 (translationAttributesToTranslationsTable st)"
    by (simp_all add: wellFormed_def)
  from AddRow_okTable [OF ta, of "[VStr ?note]"]
  obtain aid ta where a: "AddRow [VStr ?note] (translationAttributesTable st) = (Inr aid, ta)"
    by auto
  from AddRow_okTable [OF tj, of "[VInt aid, VInt tid]"]
  obtain jid tat where
    j: "AddRow [VInt aid, VInt tid] (translationAttributesToTranslationsTable st) = (Inr jid, tat)"
    by auto
  have "addAttribute ?note ?st1 =
      Inr (?st1\<lparr>translationAttributesTable := ta,
                 translationAttributesToTranslationsTable := tat, attributeId := 0\<rparr>)"
    using assms(5) a j by (simp add: addAttribute_def)
  with attr have eq: "st'\<lparr>gramTypeTranslationTable := gramTypeTranslationTable st\<rparr> =
      ?st1\<lparr>translationAttributesTable := ta,
            translationAttributesToTranslationsTable := tat, attributeId := 0\<rparr>"
    by simp
  have "wordsTable st' = wt" using arg_cong [OF eq, of wordsTable] by simp
  moreover have "translationsTable st' = tt" using arg_cong [OF eq, of translationsTable] by simp
  moreover have "translationAttributesTable st' = ta"
    using arg_cong [OF eq, of translationAttributesTable] by simp
  moreover have "translationAttributesToTranslationsTable st' = tat"
    using arg_cong [OF eq, of translationAttributesToTranslationsTable] by simp
  moreover have "attributeId st' = 0" using arg_cong [OF eq, of attributeId] by simp
  moreover have "step st line = Inr st'"
    using assms(2-5) run by (simp add: step_reachesBody bodyLine_def)
  ultimately show ?thesis using word trans a j tid by blast
qed

text \<open>
  The theorem at the first state of a run and the line \<open> [p][c red]adj[/p][trn]x[/trn]\<close>:
  the attribute stored is \<open>adj\<close>.
\<close>

theorem attribute_holds_note_text_witness:
  "wellFormed (projr initState) \<and>
   reachesBody (projr initState) '' [p][c red]adj[/p][trn]x[/trn]'' \<and>
   validateBodyLine '' [p][c red]adj[/p][trn]x[/trn]'' = None \<and>
   extractTranslation '' [p][c red]adj[/p][trn]x[/trn]'' = ''x'' \<and>
   extractNote '' [p][c red]adj[/p][trn]x[/trn]'' = (''red'', ''adj'') \<and>
   storeRows translationAttributesTable
     (step (projr initState) '' [p][c red]adj[/p][trn]x[/trn]'') = Inr [[''adj'']] \<and>
   storeRows translationAttributesToTranslationsTable
     (step (projr initState) '' [p][c red]adj[/p][trn]x[/trn]'') = Inr [[''1'', ''1'']] \<and>
   storeRows translationsTable
     (step (projr initState) '' [p][c red]adj[/p][trn]x[/trn]'') = Inr [[''0'', ''1'']]"
proof -
  have wf: "wellFormed (projr initState)"
    using initState_wellFormed by (metis sum.sel(2))
  have body: "reachesBody (projr initState) '' [p][c red]adj[/p][trn]x[/trn]''"
    by (simp add: reachesBody_def header_def line_red_adj)
  from attribute_holds_note_text [OF wf body]
  show ?thesis using wf body
    by (auto simp: store_eval line_red_adj)
qed

text \<open>
  Claim C3 as stated fails on the line \<open> [p][c red]adj[/p][trn]x[/trn]\<close> after the
  headword \<open>cat\<close>: the qualifier value is \<open>red\<close>, and the only row of the
  TranslationAttribute store is \<open>adj\<close>.
\<close>

theorem qualifier_not_stored_counterexample:
  "fst (extractNote '' [p][c red]adj[/p][trn]x[/trn]'') = ''red'' \<and>
   extractTranslation '' [p][c red]adj[/p][trn]x[/trn]'' = ''x'' \<and>
   storeRows translationAttributesTable (parse [''cat'', '' [p][c red]adj[/p][trn]x[/trn]''])
     = Inr [[''adj'']]"
  using line_cat by (simp add: loop_eval store_eval line_red_adj)

text \<open>
  Claim C4, as amended. In a state with no dictionary name yet, the lines \<open>#NAME "A"\<close> and
  \<open>#NAME "B"\<close> in sequence create the Dictionary row for \<open>A\<close> only. The later line is not
  read as a header, but it is not ignored either: it begins with neither white space nor
  a bracket, so it is a headword, and the Word store gains the row (\<open>#NAME "B"\<close>,
  dictionary identity, source language identity). No other store changes.
\<close>

theorem later_name_header_becomes_headword:
  assumes "wellFormed st" and "dicName st = []"
  shows "\<exists>i dt wid wt.
           AddRow [VStr ''A''] (dictionariesTable st) = (Inr i, dt) \<and>
           AddRow [VStr ''#NAME \"B\"'', VInt i, VInt (langFromId st)] (wordsTable st)
             = (Inr wid, wt) \<and>
           processLines st [''#NAME \"A\"'', ''#NAME \"B\"''] =
             Inr (st\<lparr>dicName := ''A'', dictionariesTable := dt, dicId := i,
                     wordsTable := wt, wordFromId := wid, gramTypeId := 0, attributeId := 0\<rparr>)"
proof -
  from assms(1) have d: "okTable 1 (dictionariesTable st)" and w: "okTable 3 (wordsTable st)"
    by (simp_all add: wellFormed_def)
  from AddRow_okTable [OF d, of "[VStr ''A'']"]
  obtain i dt where 1: "AddRow [VStr ''A''] (dictionariesTable st) = (Inr i, dt)" by auto
  from AddRow_okTable [OF w, of "[VStr ''#NAME \"B\"'', VInt i, VInt (langFromId st)]"]
  obtain wid wt where 2: "AddRow [VStr ''#NAME \"B\"'', VInt i, VInt (langFromId st)]
      (wordsTable st) = (Inr wid, wt)" by auto
  have "step st ''#NAME \"A\"'' = Inr (st\<lparr>dicName := ''A'', dictionariesTable := dt, dicId := i\<rparr>)"
    using assms(2) 1 by (simp add: step_def header_def line_name_A)
  moreover have "step (st\<lparr>dicName := ''A'', dictionariesTable := dt, dicId := i\<rparr>) ''#NAME \"B\"''
      = Inr (st\<lparr>dicName := ''A'', dictionariesTable := dt, dicId := i,
                wordsTable := wt, wordFromId := wid, gramTypeId := 0, attributeId := 0\<rparr>)"
    using 2 by (simp add: step_def header_def headwordOrBody_def line_name_B)
  ultimately show ?thesis using 1 2 by simp
qed

text \<open>The theorem at the first state of a run.\<close>

theorem later_name_header_becomes_headword_witness:
  "wellFormed (projr initState) \<and> dicName (projr initState) = [] \<and>
   storeRows dictionariesTable (processLines (projr initState) [''#NAME \"A\"'', ''#NAME \"B\"''])
     = Inr [[''A'']] \<and>
   storeRows wordsTable (processLines (projr initState) [''#NAME \"A\"'', ''#NAME \"B\"''])
     = Inr [[''#NAME \"B\"'', ''1'', ''0'']]"
proof -
  have wf: "wellFormed (projr initState)" and nm: "dicName (projr initState) = []"
    using initState_wellFormed by (auto simp: initState_def withTable_def uniqueTable_def NewTable_def)
  from later_name_header_becomes_headword [OF wf nm]
  show ?thesis using wf nm
    by (auto simp: store_eval)
qed

text \<open>
  Claim C4 as stated fails: the Word store is empty after \<open>#NAME "A"\<close> and holds a row
  after \<open>#NAME "B"\<close>.
\<close>

theorem later_name_header_counterexample:
  "storeRows wordsTable (parse [''#NAME \"A\"'']) = Inr [] \<and>
   storeRows wordsTable (parse [''#NAME \"A\"'', ''#NAME \"B\"''])
     = Inr [[''#NAME \"B\"'', ''1'', ''0'']]"
  by (simp add: loop_eval store_eval line_name_A line_name_B)

text \<open>
  Claim C5, as amended. Every run whose input contains a line that is not blank, that no
  header pattern matches, that is no headword and that fails validation (such as
  \<open>[trn]x[/trn]\<close>, which begins with a bracket and not with white space) aborts with a
  validation error, at that line or at an earlier one, and hands no table to the
  renderer. The line \<open>notindented[trn]x[/trn]\<close> is not such a line: it begins with neither
  white space nor a bracket, so it is a headword.
\<close>

theorem invalid_body_line_aborts:
  assumes "line \<in> set ls"
    and "TrimSpace line \<noteq> []"
    and "scanTitle ''#NAME'' line = None"
    and "scanTitle ''#INDEX_LANGUAGE'' line = None"
    and "scanTitle ''#CONTENTS_LANGUAGE'' line = None"
    and "scanWordArticleTitle line = []"
    and "validateBodyLine line = Some err"
  shows "\<exists>e. main ls = Inl e \<and> isValidationError e"
proof -
  have "step st line = Inl err" for st
    using assms(2-7) by (simp add: step_def header_def headwordOrBody_def bodyLine_def)
  then have "\<And>st'. \<exists>e. step st' line = Inl e" by blast
  moreover obtain st0 where "initState = Inr st0" "wellFormed st0"
    using initState_wellFormed by blast
  ultimately obtain e where "processLines st0 ls = Inl e" "isValidationError e"
    using processLines_aborts [OF _ assms(1), of st0] by blast
  moreover have "parse ls = processLines st0 ls"
    by (simp add: parse_def \<open>initState = Inr st0\<close>)
  ultimately show ?thesis by (simp add: main_def)
qed

text \<open>The theorem at the line \<open>[trn]x[/trn]\<close> between two other lines.\<close>

theorem invalid_body_line_aborts_witness:
  "''[trn]x[/trn]'' \<in> set [''cat'', ''[trn]x[/trn]'', '' [trn]chat[/trn]''] \<and>
   TrimSpace ''[trn]x[/trn]'' \<noteq> [] \<and>
   scanTitle ''#NAME'' ''[trn]x[/trn]'' = None \<and>
   scanTitle ''#INDEX_LANGUAGE'' ''[trn]x[/trn]'' = None \<and>
   scanTitle ''#CONTENTS_LANGUAGE'' ''[trn]x[/trn]'' = None \<and>
   scanWordArticleTitle ''[trn]x[/trn]'' = [] \<and>
   validateBodyLine ''[trn]x[/trn]'' = Some NotBeginningWithSpaces \<and>
   (\<exists>e. main [''cat'', ''[trn]x[/trn]'', '' [trn]chat[/trn]''] = Inl e \<and> isValidationError e)"
  using invalid_body_line_aborts
    [of "''[trn]x[/trn]''" "[''cat'', ''[trn]x[/trn]'', '' [trn]chat[/trn]'']" NotBeginningWithSpaces]
  by (simp add: line_eval)

text \<open>
  Claim C5 as stated fails: the run on the single line \<open>notindented[trn]x[/trn]\<close> does
  not abort; the line becomes a row of the Word store.
\<close>

theorem not_indented_counterexample:
  "\<not> isl (main [''notindented[trn]x[/trn]'']) \<and>
   storeRows wordsTable (parse [''notindented[trn]x[/trn]''])
     = Inr [[''notindented[trn]x[/trn]'', ''0'', ''0'']]"
  by (simp add: line_eval store_eval loop_eval)

section \<open>The translation extractor\<close>

text \<open>
  A literal matches when it is a prefix of the text; on a text with no line feed the
  greedy star of \<open>.\<close> leaves each suffix of the text, the shortest first.
\<close>

lemma rmatch_lit:
  "w \<noteq> [] \<Longrightarrow>
   rmatch (lit w) b s cs = (if prefix w s then [(False, drop (length w) s, cs)] else [])"
proof (induction w arbitrary: b s rule: lit.induct)
  case 1
  then show ?case by simp
next
  case (2 c)
  then show ?case by (cases s) auto
next
  case (3 c d w)
  then show ?case by (cases s) auto
qed

lemma rmatch_star_sym_Cons:
  "rmatch (Star (Sym a)) b (c # s) cs =
     (if accepts a c then rmatch (Star (Sym a)) False s cs else []) @ [(b, c # s, cs)]"
  by simp

lemma rmatch_star_dot:
  "CHR 0x0A \<notin> set s \<Longrightarrow>
   rmatch (Star (Sym Dot)) b s cs = map (\<lambda>t. (b \<and> t = s, t, cs)) (suffixes s)"
proof (induction s arbitrary: b)
  case Nil
  then show ?case by simp
next
  case (Cons c s)
  have "t \<in> set (suffixes s) \<Longrightarrow> t \<noteq> c # s" for t
    using suffix_length_le [of t s] by auto
  then show ?case using Cons
    by (auto simp del: rmatch.simps(7) simp add: rmatch_star_sym_Cons cong: map_cong)
qed

lemma rmatch_greedy_capture:
  assumes "CHR 0x0A \<notin> set s" and "w \<noteq> []"
  shows "rmatch (Cat (Group n (Star (Sym Dot))) (lit w)) b s cs =
           concat (map (\<lambda>t. if prefix w t
                               then [(False, drop (length w) t, cs(n := take (length s - length t) s))]
                               else [])
                    (suffixes s))"
  using assms by (simp del: rmatch.simps(7) add: rmatch_star_dot rmatch_lit comp_def)

lemma no_occurrence_in_suffixes:
  assumes "\<not> sublist w u"
  shows "concat (map (\<lambda>t. if prefix w t then [f t] else []) (suffixes u)) = []"
proof -
  have "\<not> prefix w t" if "t \<in> set (suffixes u)" for t
    using that assms by (auto simp: sublist_altdef')
  then show ?thesis by (simp cong: map_cong)
qed

lemma greedy_none:
  assumes "CHR 0x0A \<notin> set s" and "w \<noteq> []" and "\<not> sublist w s"
  shows "rmatch (Cat (Group n (Star (Sym Dot))) (lit w)) b s cs = []"
  using assms by (simp del: rmatch.simps add: rmatch_greedy_capture no_occurrence_in_suffixes)

lemma greedy_last:
  assumes "CHR 0x0A \<notin> set (mid @ w @ post)" and "w \<noteq> []" and "\<not> sublist w (tl w @ post)"
  shows "\<exists>rest. rmatch (Cat (Group n (Star (Sym Dot))) (lit w)) b (mid @ w @ post) cs =
           (False, post, cs(n := mid)) # rest"
proof -
  from assms(2) obtain c w' where w: "w = c # w'" by (cases w) auto
  let ?s = "mid @ w @ post"
  let ?f = "\<lambda>t. (False, drop (length w) t, cs(n := take (length ?s - length t) ?s))"
  have split: "suffixes ?s = suffixes (w' @ post) @ [w @ post] @
      map (\<lambda>m. m @ w @ post) (tl (suffixes mid))"
    unfolding w by (subst suffixes_append) simp
  have "concat (map (\<lambda>t. if prefix w t then [?f t] else []) (suffixes (w' @ post))) = []"
    using assms(3) w by (intro no_occurrence_in_suffixes) simp
  then have "concat (map (\<lambda>t. if prefix w t then [?f t] else []) (suffixes ?s)) =
      ?f (w @ post) # concat (map (\<lambda>t. if prefix w t then [?f t] else [])
         (map (\<lambda>m. m @ w @ post) (tl (suffixes mid))))"
    by (simp only: split map_append concat_append) simp
  moreover have "?f (w @ post) = (False, post, cs(n := mid))" by simp
  ultimately show ?thesis
    using rmatch_greedy_capture [OF assms(1,2), of n b cs] by simp
qed

lemma rmatch_lit_then:
  "w \<noteq> [] \<Longrightarrow>
   rmatch (Cat (lit w) r) b s cs =
     (if prefix w s then rmatch r False (drop (length w) s) cs else [])"
  by (simp add: rmatch_lit)

lemma prefix_inside:
  assumes "prefix w (p @ w @ r)" and "p \<noteq> []"
  shows "prefix w (p @ butlast w)"
proof (cases "w = []")
  case True
  then show ?thesis by simp
next
  case False
  then have w: "w = butlast w @ [last w]" by simp
  have "length w \<le> length (p @ butlast w)" using assms(2) by (cases p) auto
  moreover have "prefix w ((p @ butlast w) @ ([last w] @ r))"
    using assms(1) w by (metis append.assoc)
  ultimately show ?thesis
    by (metis prefix_length_prefix prefix_order.dual_order.refl prefix_append append_prefixD)
qed


lemma first_occurrence:
  assumes "sublist w s" and "w \<noteq> []"
  shows "\<exists>pre rest. s = pre @ w @ rest \<and> \<not> sublist w (pre @ butlast w)"
  using assms(1)
proof (induction s)
  case Nil
  then show ?case using assms(2) by simp
next
  case (Cons c s)
  show ?case
  proof (cases "prefix w (c # s)")
    case True
    then obtain rest where "c # s = [] @ w @ rest" by (auto simp: prefix_def)
    moreover have "length (butlast w) < length w" using assms(2) by simp
    then have "\<not> sublist w ([] @ butlast w)"
      using sublist_length_le [of w "butlast w"] by auto
    ultimately show ?thesis by blast
  next
    case False
    with Cons.prems have "sublist w s" by (simp add: sublist_Cons_right)
    with Cons.IH obtain pre rest where s: "s = pre @ w @ rest"
      and first: "\<not> sublist w (pre @ butlast w)" by blast
    have "\<not> prefix w ((c # pre) @ butlast w)"
    proof
      assume "prefix w ((c # pre) @ butlast w)"
      moreover have "prefix ((c # pre) @ butlast w) (c # s)"
        using s prefixeq_butlast [of w] by simp
      ultimately show False using False by (meson prefix_order.trans)
    qed
    with first have "\<not> sublist w ((c # pre) @ butlast w)"
      by (simp add: sublist_Cons_right)
    moreover have "c # s = (c # pre) @ w @ rest" using s by simp
    ultimately show ?thesis by blast
  qed
qed

lemma last_occurrence:
  assumes "sublist w s" and "w \<noteq> []"
  shows "\<exists>mid post. s = mid @ w @ post \<and> \<not> sublist w (tl w @ post)"
proof -
  from assms have "sublist (rev w) (rev s)" and "rev w \<noteq> []" by simp_all
  from first_occurrence [OF this]
  obtain pre rest where r: "rev s = pre @ rev w @ rest"
    and first: "\<not> sublist (rev w) (pre @ butlast (rev w))" by blast
  from r have "rev (rev s) = rev (pre @ rev w @ rest)" by simp
  then have "s = rev rest @ w @ rev pre" by simp
  moreover have eq: "pre @ butlast (rev w) = rev (tl w @ rev pre)"
    by (simp add: butlast_rev)
  have "\<not> sublist w (tl w @ rev pre)"
    using first unfolding eq sublist_rev .
  ultimately show ?thesis by blast
qed

lemma pair_first_last:
  assumes "s = pre0 @ w1 @ mid0 @ w2 @ post0" and "w1 \<noteq> []" and "w2 \<noteq> []"
  shows "\<exists>pre mid post. s = pre @ w1 @ mid @ w2 @ post \<and>
           \<not> sublist w1 (pre @ butlast w1) \<and> \<not> sublist w2 (tl w2 @ post)"
proof -
  let ?R0 = "mid0 @ w2 @ post0"
  have "sublist w1 s" using assms(1) by (auto simp: sublist_def)
  from first_occurrence [OF this assms(2)]
  obtain pre rest where s: "s = pre @ w1 @ rest" and first: "\<not> sublist w1 (pre @ butlast w1)"
    by blast
  from s assms(1) have "pre @ (w1 @ rest) = pre0 @ (w1 @ ?R0)" by simp
  then have "\<exists>u. (pre = pre0 @ u \<and> u @ (w1 @ rest) = w1 @ ?R0) \<or>
                (pre @ u = pre0 \<and> w1 @ rest = u @ (w1 @ ?R0))"
    by (simp only: append_eq_append_conv2)
  then consider u where "pre = pre0 @ u" "u @ (w1 @ rest) = w1 @ ?R0"
    | u where "pre @ u = pre0" "w1 @ rest = u @ (w1 @ ?R0)"
    by blast
  then have "suffix ?R0 rest"
  proof cases
    case 1
    have "u = []"
    proof (rule ccontr)
      assume "u \<noteq> []"
      moreover have "prefix w1 (u @ w1 @ rest)" using 1(2) by (simp add: prefix_def)
      ultimately have "prefix w1 (u @ butlast w1)" by (intro prefix_inside)
      then have "sublist w1 (pre0 @ (u @ butlast w1))"
        by (metis prefix_def sublist_appendI)
      with first 1(1) show False by simp
    qed
    with 1(2) show ?thesis by simp
  next
    case 2
    then have "suffix ?R0 (w1 @ rest)" by (simp add: suffix_def)
    moreover have "suffix rest (w1 @ rest)" by (simp add: suffix_def)
    moreover have "length ?R0 \<le> length rest"
      using arg_cong [OF 2(2), of length] by simp
    ultimately show ?thesis by (rule suffix_length_suffix)
  qed
  moreover have "sublist w2 ?R0" by (auto simp: sublist_def)
  ultimately have "sublist w2 rest"
    by (meson suffix_imp_sublist sublist_order.order_trans)
  from last_occurrence [OF this assms(3)]
  obtain mid post where "rest = mid @ w2 @ post" "\<not> sublist w2 (tl w2 @ post)" by blast
  with s first show ?thesis by blast
qed

lemma search_greedy_none:
  assumes "CHR 0x0A \<notin> set s" and "w1 \<noteq> []" and "w2 \<noteq> []"
    and "\<not> (\<exists>pre mid post. s = pre @ w1 @ mid @ w2 @ post)"
  shows "search (Cat (lit w1) (Cat (Group n (Star (Sym Dot))) (lit w2))) b s = None"
  using assms(1,4)
proof (induction s arbitrary: b)
  case Nil
  then show ?case using assms(2) by (simp del: rmatch.simps add: rmatch_lit_then)
next
  case (Cons c s)
  let ?X = "Cat (Group n (Star (Sym Dot))) (lit w2)"
  have here: "rmatch (Cat (lit w1) ?X) b (c # s) (\<lambda>_. []) = []"
  proof (cases "prefix w1 (c # s)")
    case True
    then obtain rest where rest: "c # s = w1 @ rest" by (auto simp: prefix_def)
    have "\<not> sublist w2 rest"
    proof
      assume "sublist w2 rest"
      then obtain mid post where "rest = mid @ w2 @ post" by (auto simp: sublist_def)
      with rest have "c # s = [] @ w1 @ mid @ w2 @ post" by simp
      with Cons.prems(2) show False by blast
    qed
    moreover have "CHR 0x0A \<notin> set rest" using Cons.prems(1) rest
      by (metis Un_iff set_append)
    ultimately have "rmatch ?X False rest (\<lambda>_. []) = []"
      using assms(3) by (intro greedy_none)
    then show ?thesis using assms(2) rest
      by (simp del: rmatch.simps add: rmatch_lit_then)
  next
    case False
    then show ?thesis using assms(2) by (simp del: rmatch.simps add: rmatch_lit_then)
  qed
  have "\<not> (\<exists>pre mid post. s = pre @ w1 @ mid @ w2 @ post)"
  proof
    assume "\<exists>pre mid post. s = pre @ w1 @ mid @ w2 @ post"
    then obtain pre mid post where "s = pre @ w1 @ mid @ w2 @ post" by blast
    then have "c # s = (c # pre) @ w1 @ mid @ w2 @ post" by simp
    with Cons.prems(2) show False by blast
  qed
  with Cons have "search (Cat (lit w1) ?X) False s = None" by simp
  with here show ?case by (simp del: rmatch.simps)
qed

lemma search_greedy_found:
  assumes "CHR 0x0A \<notin> set (pre @ w1 @ mid @ w2 @ post)" and "w1 \<noteq> []" and "w2 \<noteq> []"
    and "\<not> sublist w1 (pre @ butlast w1)" and "\<not> sublist w2 (tl w2 @ post)"
  shows "\<exists>m rest cs. search (Cat (lit w1) (Cat (Group n (Star (Sym Dot))) (lit w2))) b
                        (pre @ w1 @ mid @ w2 @ post) = Some (m, rest, cs) \<and> cs n = mid"
  using assms(1,4)
proof (induction pre arbitrary: b)
  case Nil
  let ?X = "Cat (Group n (Star (Sym Dot))) (lit w2)"
  from assms(2) obtain c w' where w1: "w1 = c # w'" by (cases w1) auto
  have "CHR 0x0A \<notin> set (mid @ w2 @ post)" using Nil.prems(1) by simp
  from greedy_last [OF this assms(3,5), of n False "\<lambda>_. []"]
  obtain more where "rmatch ?X False (mid @ w2 @ post) (\<lambda>_. []) =
      (False, post, (\<lambda>_. [])(n := mid)) # more" by blast
  then have "rmatch (Cat (lit w1) ?X) b (c # w' @ mid @ w2 @ post) (\<lambda>_. []) =
      (False, post, (\<lambda>_. [])(n := mid)) # more"
    using rmatch_lit_then [of w1 ?X b "w1 @ mid @ w2 @ post" "\<lambda>_. []"] assms(2) w1 by simp
  then show ?case by (simp del: rmatch.simps add: w1)
next
  case (Cons c pre)
  let ?X = "Cat (Group n (Star (Sym Dot))) (lit w2)"
  let ?s = "pre @ w1 @ mid @ w2 @ post"
  have "\<not> prefix w1 ((c # pre) @ w1 @ mid @ w2 @ post)"
  proof
    assume "prefix w1 ((c # pre) @ w1 @ mid @ w2 @ post)"
    then have "prefix w1 ((c # pre) @ butlast w1)" by (intro prefix_inside) auto
    then have "sublist w1 ((c # pre) @ butlast w1)" by (rule prefix_imp_sublist)
    with Cons.prems(2) show False by simp
  qed
  then have here: "rmatch (Cat (lit w1) ?X) b (c # ?s) (\<lambda>_. []) = []"
    using assms(2) by (simp del: rmatch.simps add: rmatch_lit_then)
  have "\<not> sublist w1 (pre @ butlast w1)"
    using Cons.prems(2) by (simp add: sublist_Cons_right)
  moreover have "CHR 0x0A \<notin> set ?s" using Cons.prems(1) by simp
  ultimately obtain m rest cs where
    "search (Cat (lit w1) ?X) False ?s = Some (m, rest, cs)" "cs n = mid"
    using Cons.IH by blast
  with here show ?case by (simp del: rmatch.simps)
qed

text \<open>
  The two replacements of \<open>cleanupLine\<close> do what the words above say: the pattern
  \<open>\s{2,}\<close> matches at a position exactly when two characters of \<open>\s\<close> stand there, and
  then takes every further one; the pattern \<open>\[.*?]\<close> matches at a \<open>[\<close> that has a \<open>]\<close>
  after it, up to the first one.
\<close>

lemma star_sym_head:
  "\<exists>b' more. rmatch (Star (Sym a)) b s cs = (b', dropWhile (accepts a) s, cs) # more"
proof (induction s arbitrary: b)
  case Nil
  then show ?case by simp
next
  case (Cons c s)
  show ?case
  proof (cases "accepts a c")
    case True
    from Cons [of False] obtain b' more where
      "rmatch (Star (Sym a)) False s cs = (b', dropWhile (accepts a) s, cs) # more" by blast
    then show ?thesis using True
      by (simp del: rmatch.simps(7) add: rmatch_star_sym_Cons)
  next
    case False
    then show ?thesis by (simp del: rmatch.simps(7) add: rmatch_star_sym_Cons)
  qed
qed

lemma rmatch_spacesPattern:
  "rmatch spacesPattern b s cs =
     (case s of
        c # d # t \<Rightarrow>
          if c \<in> set perlSpace \<and> d \<in> set perlSpace
          then rmatch (Star (Sym (OneOf perlSpace))) False t cs else []
      | _ \<Rightarrow> [])"
  by (cases s; cases "tl s")
     (auto simp del: rmatch.simps(7) simp add: spacesPattern_def AtLeast2_def)

lemma replace_spaces:
  "replaceFrom spacesPattern '' '' b adj s = collapseSpaces s"
proof (induction s arbitrary: b adj rule: collapseSpaces.induct)
  case 1
  show ?case by (subst replaceFrom.simps) (simp add: rmatch_spacesPattern)
next
  case (2 c)
  have "replaceFrom spacesPattern '' '' False False [] = []"
    by (subst replaceFrom.simps) (simp add: rmatch_spacesPattern)
  then show ?case by (subst replaceFrom.simps) (simp add: rmatch_spacesPattern)
next
  case (3 c d s)
  show ?case
  proof (cases "c \<in> set perlSpace \<and> d \<in> set perlSpace")
    case True
    have cls: "accepts (OneOf perlSpace) = (\<lambda>x. x \<in> set perlSpace)"
      by (rule ext) simp
    from star_sym_head [of "OneOf perlSpace" False s "\<lambda>_. []", unfolded cls]
    obtain b' more where "rmatch (Star (Sym (OneOf perlSpace))) False s (\<lambda>_. []) =
        (b', dropWhile (\<lambda>x. x \<in> set perlSpace) s, \<lambda>_. []) # more" by blast
    moreover have "length (dropWhile (\<lambda>x. x \<in> set perlSpace) s) < length (c # d # s)"
      using length_dropWhile_le [of "\<lambda>x. x \<in> set perlSpace" s] by simp
    ultimately show ?thesis using True 3(1) [OF True]
      by (subst replaceFrom.simps) (simp del: rmatch.simps(7) add: rmatch_spacesPattern)
  next
    case False
    then show ?thesis using 3(2) [OF False]
      by (subst replaceFrom.simps) (auto simp del: rmatch.simps(7) simp add: rmatch_spacesPattern)
  qed
qed


lemma rmatch_lazy_sym_Cons:
  "rmatch (LazyStar (Sym a)) b (c # s) cs =
     (b, c # s, cs) # (if accepts a c then rmatch (LazyStar (Sym a)) False s cs else [])"
  by simp

lemma lazy_bracket_step:
  assumes "c \<noteq> CHR 0x0A"
  shows "rmatch (Cat (LazyStar (Sym Dot)) (Sym (Chr CHR '']''))) b (c # s) cs =
      (if c = CHR '']'' then [(False, s, cs)] else []) @
      rmatch (Cat (LazyStar (Sym Dot)) (Sym (Chr CHR '']''))) False s cs"
  using assms
  by (simp del: rmatch.simps(8) add: rmatch_lazy_sym_Cons)


lemma lazy_dot_bracket:
  assumes "CHR 0x0A \<notin> set s"
  shows "(CHR '']'' \<notin> set s \<longrightarrow>
            rmatch (Cat (LazyStar (Sym Dot)) (Sym (Chr CHR '']''))) b s cs = []) \<and>
         (CHR '']'' \<in> set s \<longrightarrow>
            (\<exists>b' more. rmatch (Cat (LazyStar (Sym Dot)) (Sym (Chr CHR '']''))) b s cs =
               (b', tl (dropWhile (\<lambda>x. x \<noteq> CHR '']'') s), cs) # more))"
  using assms
proof (induction s arbitrary: b)
  case Nil
  show ?case by simp
next
  case (Cons c s)
  let ?L = "\<lambda>b s. rmatch (Cat (LazyStar (Sym Dot)) (Sym (Chr CHR '']''))) b s cs"
  from Cons.prems have c: "c \<noteq> CHR 0x0A" and nl: "CHR 0x0A \<notin> set s" by auto
  note step = lazy_bracket_step [OF c, of b s cs]
  note IH = Cons.IH [OF nl, of False]
  show ?case
  proof (cases "c = CHR '']''")
    case True
    have "tl (dropWhile (\<lambda>x. x \<noteq> CHR '']'') (c # s)) = s" using True by simp
    then have "?L b (c # s) =
        (False, tl (dropWhile (\<lambda>x. x \<noteq> CHR '']'') (c # s)), cs) # ?L False s"
      unfolding step using True by (simp del: rmatch.simps)
    then have "\<exists>b' more. ?L b (c # s) =
        (b', tl (dropWhile (\<lambda>x. x \<noteq> CHR '']'') (c # s)), cs) # more"
      by (intro exI [of _ False] exI [of _ "?L False s"])
    moreover have "CHR '']'' \<in> set (c # s)" using True by simp
    ultimately show ?thesis by (simp del: rmatch.simps)
  next
    case False
    have eq: "?L b (c # s) = ?L False s"
      unfolding step using False by (simp del: rmatch.simps)
    have dw: "dropWhile (\<lambda>x. x \<noteq> CHR '']'') (c # s) = dropWhile (\<lambda>x. x \<noteq> CHR '']'') s"
      using False by simp
    have mem: "CHR '']'' \<in> set (c # s) \<longleftrightarrow> CHR '']'' \<in> set s" using False by auto
    show ?thesis using IH unfolding eq dw mem .
  qed
qed

lemma rmatch_tagPattern_Nil: "rmatch tagPattern b [] cs = []"
  by (simp add: tagPattern_def)

lemma rmatch_tagPattern_Cons:
  "rmatch tagPattern b (c # s) cs =
     (if c = CHR ''[''
      then rmatch (Cat (LazyStar (Sym Dot)) (Sym (Chr CHR '']''))) False s cs else [])"
  by (simp del: rmatch.simps(8) add: tagPattern_def)

lemma in_set_rest:
  assumes "x \<in> set (tl (dropWhile P s))"
  shows "x \<in> set s"
proof (cases "dropWhile P s")
  case Nil
  with assms show ?thesis by simp
next
  case (Cons a list)
  with assms have "x \<in> set (dropWhile P s)" by simp
  then show ?thesis by (rule set_dropWhileD)
qed

lemma replace_tags:
  "CHR 0x0A \<notin> set s \<Longrightarrow> replaceFrom tagPattern [] b adj s = stripTags s"
proof (induction s arbitrary: b adj rule: stripTags.induct)
  case 1
  show ?case by (subst replaceFrom.simps) (simp add: rmatch_tagPattern_Nil)
next
  case (2 c s)
  from "2.prems" have nl: "CHR 0x0A \<notin> set s" by simp
  show ?case
  proof (cases "c = CHR ''['' \<and> CHR '']'' \<in> set s")
    case True
    let ?rest = "tl (dropWhile (\<lambda>x. x \<noteq> CHR '']'') s)"
    from lazy_dot_bracket [OF nl, of False "\<lambda>_. []"] True
    obtain b' more where "rmatch (Cat (LazyStar (Sym Dot)) (Sym (Chr CHR '']''))) False s (\<lambda>_. [])
        = (b', ?rest, \<lambda>_. []) # more"
      by blast
    then have m: "rmatch tagPattern b (c # s) (\<lambda>_. []) = (b', ?rest, \<lambda>_. []) # more"
      using True by (simp del: rmatch.simps add: rmatch_tagPattern_Cons)
    have len: "length ?rest < length (c # s)"
      using length_dropWhile_le [of "\<lambda>x. x \<noteq> CHR '']''" s] by simp
    have "CHR 0x0A \<notin> set ?rest" using nl in_set_rest by fast
    from "2.IH"(1) [OF True this]
    have IH: "replaceFrom tagPattern [] False True ?rest = stripTags ?rest" .
    have "replaceFrom tagPattern [] b adj (c # s) = replaceFrom tagPattern [] False True ?rest"
      using len by (subst replaceFrom.simps) (simp only: m list.case prod.case if_True append_Nil)
    then show ?thesis using True IH by simp
  next
    case False
    then have m: "rmatch tagPattern b (c # s) (\<lambda>_. []) = []"
      using lazy_dot_bracket [OF nl, of False "\<lambda>_. []"]
      by (auto simp only: rmatch_tagPattern_Cons split: if_splits)
    from "2.IH"(2) [OF False nl]
    have IH: "replaceFrom tagPattern [] False False s = stripTags s" .
    have "replaceFrom tagPattern [] b adj (c # s) = c # replaceFrom tagPattern [] False False s"
      by (subst replaceFrom.simps) (simp only: m list.case)
    then show ?thesis using False IH by auto
  qed
qed

lemma cleanupLine_in_words:
  "CHR 0x0A \<notin> set s \<Longrightarrow> cleanupLine s = TrimSpace (collapseSpaces (stripTags s))"
  by (simp add: cleanupLine_def ReplaceAllString_def replace_tags replace_spaces)

text \<open>
  \<open>TrimSpace\<close> takes white space characters away at both ends, and only those, until the
  text neither begins nor ends with one.
\<close>

lemma stripLeading_spec:
  "\<exists>lead. s = concat lead @ stripLeading ws s \<and> set lead \<subseteq> set ws \<and>
          (\<forall>w \<in> set ws. w \<noteq> [] \<longrightarrow> \<not> prefix w (stripLeading ws s))"
proof (induction ws s rule: stripLeading.induct)
  case (1 ws s)
  show ?case
  proof (cases "List.find (\<lambda>w. w \<noteq> [] \<and> prefix w s) ws")
    case None
    then have "\<forall>w \<in> set ws. w \<noteq> [] \<longrightarrow> \<not> prefix w s"
      by (auto simp: find_None_iff)
    moreover have "stripLeading ws s = s"
      using None by (subst stripLeading.simps) simp
    ultimately have "s = concat [] @ stripLeading ws s \<and> set [] \<subseteq> set ws \<and>
          (\<forall>w \<in> set ws. w \<noteq> [] \<longrightarrow> \<not> prefix w (stripLeading ws s))"
      by simp
    then show ?thesis by (rule exI)
  next
    case (Some w)
    then have w: "w \<in> set ws" "prefix w s"
      by (auto simp: find_Some_iff)
    then have s: "s = w @ drop (length w) s" by (auto simp: prefix_def)
    have eq: "stripLeading ws s = stripLeading ws (drop (length w) s)"
      using Some by (subst stripLeading.simps) simp
    from 1 [OF Some] obtain lead where
      l: "drop (length w) s = concat lead @ stripLeading ws (drop (length w) s)"
      and sub: "set lead \<subseteq> set ws"
      and np: "\<forall>v \<in> set ws. v \<noteq> [] \<longrightarrow> \<not> prefix v (stripLeading ws (drop (length w) s))"
      by blast
    have "s = concat (w # lead) @ stripLeading ws s"
      using s l eq by (metis append.assoc concat.simps(2))
    moreover have "set (w # lead) \<subseteq> set ws" using w(1) sub by simp
    ultimately have "s = concat (w # lead) @ stripLeading ws s \<and> set (w # lead) \<subseteq> set ws \<and>
          (\<forall>v \<in> set ws. v \<noteq> [] \<longrightarrow> \<not> prefix v (stripLeading ws s))"
      using np eq by simp
    then show ?thesis by (rule exI)
  qed
qed

lemma unicodeSpaces_nonempty: "w \<in> set unicodeSpaces \<Longrightarrow> w \<noteq> []"
  by (auto simp: unicodeSpaces_def)

lemma concat_map_rev: "rev (concat xs) = concat (map rev (rev xs))"
  by (induction xs) auto

lemma TrimSpace_spec:
  "\<exists>lead trail. s = concat lead @ TrimSpace s @ concat trail \<and>
      set lead \<subseteq> set unicodeSpaces \<and> set trail \<subseteq> set unicodeSpaces \<and>
      (\<forall>u \<in> set unicodeSpaces. \<not> prefix u (TrimSpace s) \<and> \<not> suffix u (TrimSpace s))"
proof -
  let ?a = "stripLeading unicodeSpaces s"
  let ?b = "stripLeading (map rev unicodeSpaces) (rev ?a)"
  from stripLeading_spec [of s unicodeSpaces] obtain lead where
    s: "s = concat lead @ ?a" and lead: "set lead \<subseteq> set unicodeSpaces"
    and npa: "\<forall>w \<in> set unicodeSpaces. w \<noteq> [] \<longrightarrow> \<not> prefix w ?a" by blast
  from stripLeading_spec [of "rev ?a" "map rev unicodeSpaces"] obtain p where
    ra: "rev ?a = concat p @ ?b" and p: "set p \<subseteq> set (map rev unicodeSpaces)"
    and npb: "\<forall>w \<in> set (map rev unicodeSpaces). w \<noteq> [] \<longrightarrow> \<not> prefix w ?b" by blast
  have r: "TrimSpace s = rev ?b" by (simp add: TrimSpace_def)
  from ra have "rev (rev ?a) = rev (concat p @ ?b)" by simp
  then have a: "?a = rev ?b @ concat (map rev (rev p))"
    by (simp add: concat_map_rev)
  have trail: "set (map rev (rev p)) \<subseteq> set unicodeSpaces"
    using p by auto
  have whole: "s = concat lead @ TrimSpace s @ concat (map rev (rev p))"
    using s a r by simp
  have ends: "\<not> prefix u (TrimSpace s) \<and> \<not> suffix u (TrimSpace s)"
    if u: "u \<in> set unicodeSpaces" for u
  proof
    have ne: "u \<noteq> []" using u by (rule unicodeSpaces_nonempty)
    show "\<not> prefix u (TrimSpace s)"
    proof
      assume "prefix u (TrimSpace s)"
      then have "prefix u ?a" using a r by (metis prefix_prefix)
      with npa u ne show False by blast
    qed
    show "\<not> suffix u (TrimSpace s)"
    proof
      assume "suffix u (TrimSpace s)"
      then have "prefix (rev u) ?b" using r by (simp add: suffix_to_prefix)
      moreover have "rev u \<in> set (map rev unicodeSpaces)" using u by simp
      moreover have "rev u \<noteq> []" using ne by simp
      ultimately show False using npb by blast
    qed
  qed
  from whole lead trail ends show ?thesis by blast
qed

lemma translationPattern_unfold:
  "translationPattern = Cat (lit ''[trn]'') (Cat (Group 1 (Star (Sym Dot))) (lit ''[/trn]''))"
  by (simp only: translationPattern_def seq.simps)

text \<open>
  Claim C9, as amended. For every line, \<open>extractTranslation\<close> returns the text strictly
  between the first \<open>[trn]\<close> tag and the last \<open>[/trn]\<close> tag of the line (the capture is
  greedy: it does not end at the first closing tag), with embedded tags stripped, every
  run of two or more white space characters collapsed to one space, and leading and
  trailing white space removed: the result is what is left of the collapsed text when
  white space characters are taken away at both ends, and it neither begins nor ends with
  one. It returns the empty string when the line has no \<open>[trn]\<close> tag followed by a
  \<open>[/trn]\<close> tag. Every line that has such a pair of tags splits in this way, at its first
  \<open>[trn]\<close> and its last \<open>[/trn]\<close>.
\<close>

theorem extractTranslation_greedy:
  assumes "CHR 0x0A \<notin> set line"
  shows "(\<forall>pre mid post.
            line = pre @ ''[trn]'' @ mid @ ''[/trn]'' @ post \<and>
            \<not> sublist ''[trn]'' (pre @ ''[trn'') \<and>
            \<not> sublist ''[/trn]'' (''/trn]'' @ post)
            \<longrightarrow> extractTranslation line = TrimSpace (collapseSpaces (stripTags mid)) \<and>
                (\<exists>lead trail.
                   collapseSpaces (stripTags mid)
                     = concat lead @ extractTranslation line @ concat trail \<and>
                   set lead \<subseteq> set unicodeSpaces \<and> set trail \<subseteq> set unicodeSpaces)) \<and>
         ((\<nexists>pre mid post. line = pre @ ''[trn]'' @ mid @ ''[/trn]'' @ post)
            \<longrightarrow> extractTranslation line = []) \<and>
         ((\<exists>pre mid post. line = pre @ ''[trn]'' @ mid @ ''[/trn]'' @ post)
            \<longrightarrow> (\<exists>pre mid post.
                   line = pre @ ''[trn]'' @ mid @ ''[/trn]'' @ post \<and>
                   \<not> sublist ''[trn]'' (pre @ ''[trn'') \<and>
                   \<not> sublist ''[/trn]'' (''/trn]'' @ post))) \<and>
         (\<forall>u \<in> set unicodeSpaces.
            \<not> prefix u (extractTranslation line) \<and> \<not> suffix u (extractTranslation line))"
proof (intro conjI allI impI ballI)
  fix pre mid post
  assume a: "line = pre @ ''[trn]'' @ mid @ ''[/trn]'' @ post \<and>
            \<not> sublist ''[trn]'' (pre @ ''[trn'') \<and>
            \<not> sublist ''[/trn]'' (''/trn]'' @ post)"
  then have nl: "CHR 0x0A \<notin> set (pre @ ''[trn]'' @ mid @ ''[/trn]'' @ post)"
    using assms by simp
  then have nlmid: "CHR 0x0A \<notin> set mid" by simp
  from a have first: "\<not> sublist ''[trn]'' (pre @ butlast ''[trn]'')"
    and last: "\<not> sublist ''[/trn]'' (tl ''[/trn]'' @ post)" by simp_all
  from search_greedy_found [OF nl _ _ first last, of 1 True]
  obtain m rest cs where "search translationPattern True line = Some (m, rest, cs)" "cs 1 = mid"
    using a by (auto simp only: translationPattern_unfold)
  then have "extractTranslation line = cleanupLine mid"
    by (simp add: extractTranslation_def FindStringSubmatch_def)
  then show result: "extractTranslation line = TrimSpace (collapseSpaces (stripTags mid))"
    by (simp only: cleanupLine_in_words [OF nlmid])
  from TrimSpace_spec [of "collapseSpaces (stripTags mid)"]
  show "\<exists>lead trail.
          collapseSpaces (stripTags mid) = concat lead @ extractTranslation line @ concat trail \<and>
          set lead \<subseteq> set unicodeSpaces \<and> set trail \<subseteq> set unicodeSpaces"
    unfolding result by blast
next
  assume "\<nexists>pre mid post. line = pre @ ''[trn]'' @ mid @ ''[/trn]'' @ post"
  from search_greedy_none [OF assms _ _ this, of 1 True]
  have "search translationPattern True line = None"
    by (simp only: translationPattern_unfold) simp
  then show "extractTranslation line = []"
    by (simp add: extractTranslation_def FindStringSubmatch_def)
next
  assume "\<exists>pre mid post. line = pre @ ''[trn]'' @ mid @ ''[/trn]'' @ post"
  then obtain pre0 mid0 post0 where "line = pre0 @ ''[trn]'' @ mid0 @ ''[/trn]'' @ post0"
    by blast
  from pair_first_last [OF this]
  show "\<exists>pre mid post. line = pre @ ''[trn]'' @ mid @ ''[/trn]'' @ post \<and>
          \<not> sublist ''[trn]'' (pre @ ''[trn'') \<and>
          \<not> sublist ''[/trn]'' (''/trn]'' @ post)"
    by simp
next
  fix u
  assume u: "u \<in> set unicodeSpaces"
  then have ne: "u \<noteq> []" by (rule unicodeSpaces_nonempty)
  have trimmed: "\<not> prefix u (extractTranslation line) \<and> \<not> suffix u (extractTranslation line)"
  proof (cases "FindStringSubmatch translationPattern line")
    case None
    then show ?thesis using ne by (simp add: extractTranslation_def)
  next
    case (Some res)
    then have "extractTranslation line =
        TrimSpace (ReplaceAllString spacesPattern (ReplaceAllString tagPattern (res 1) []) '' '')"
      by (simp add: extractTranslation_def cleanupLine_def)
    then show ?thesis
      using TrimSpace_spec
        [of "ReplaceAllString spacesPattern (ReplaceAllString tagPattern (res 1) []) '' ''"] u
      by auto
  qed
  from trimmed show "\<not> prefix u (extractTranslation line)" ..
  from trimmed show "\<not> suffix u (extractTranslation line)" ..
qed

text \<open>
  The theorem at the line \<open>[trn] a  [i]b[/i][/trn], [trn]c [/trn]\<close>: the capture runs to
  the second closing tag, the tags inside it are stripped, the two spaces after \<open>a\<close>
  become one, and the spaces at both ends are removed. A line with no tag gives the empty
  string.
\<close>

theorem extractTranslation_greedy_witness:
  "CHR 0x0A \<notin> set ''[trn] a  [i]b[/i][/trn], [trn]c [/trn]'' \<and>
   ''[trn] a  [i]b[/i][/trn], [trn]c [/trn]''
     = [] @ ''[trn]'' @ '' a  [i]b[/i][/trn], [trn]c '' @ ''[/trn]'' @ [] \<and>
   \<not> sublist ''[trn]'' ([] @ ''[trn'') \<and>
   \<not> sublist ''[/trn]'' (''/trn]'' @ []) \<and>
   stripTags '' a  [i]b[/i][/trn], [trn]c '' = '' a  b, c '' \<and>
   collapseSpaces '' a  b, c '' = '' a b, c '' \<and>
   TrimSpace '' a b, c '' = ''a b, c'' \<and>
   extractTranslation ''[trn] a  [i]b[/i][/trn], [trn]c [/trn]'' = ''a b, c'' \<and>
   extractTranslation ''no tags here'' = []"
proof -
  have nl: "CHR 0x0A \<notin> set ''[trn] a  [i]b[/i][/trn], [trn]c [/trn]''" by simp
  have first: "\<not> sublist ''[trn]'' ([] @ ''[trn'')" by (simp add: sublist_code)
  have last: "\<not> sublist ''[/trn]'' (''/trn]'' @ [])" by (simp add: sublist_code)
  have shape: "''[trn] a  [i]b[/i][/trn], [trn]c [/trn]''
      = [] @ ''[trn]'' @ '' a  [i]b[/i][/trn], [trn]c '' @ ''[/trn]'' @ []"
    by simp
  have strip: "stripTags '' a  [i]b[/i][/trn], [trn]c '' = '' a  b, c ''" by simp
  have collapse: "collapseSpaces '' a  b, c '' = '' a b, c ''"
    by (simp add: perlSpace_def)
  have trim: "TrimSpace '' a b, c '' = ''a b, c''"
    by (simp add: TrimSpace_def unicodeSpaces_def stripLeading.simps)
  from extractTranslation_greedy [OF nl, THEN conjunct1, rule_format,
      of "[]" "'' a  [i]b[/i][/trn], [trn]c ''" "[]"] shape first last
  have "extractTranslation ''[trn] a  [i]b[/i][/trn], [trn]c [/trn]''
      = TrimSpace (collapseSpaces (stripTags '' a  [i]b[/i][/trn], [trn]c ''))"
    by blast
  then have "extractTranslation ''[trn] a  [i]b[/i][/trn], [trn]c [/trn]'' = ''a b, c''"
    by (simp only: strip collapse trim)
  moreover have "extractTranslation ''no tags here'' = []" by (simp add: line_eval)
  ultimately show ?thesis using nl first last strip collapse trim by simp
qed

text \<open>
  Claim C9 as stated fails on three lines. On \<open>[trn]a[/trn], [trn]b[/trn]\<close> the function
  returns \<open>a, b\<close>, and a capture up to the first closing tag returns \<open>a\<close>. On
  \<open>[trn] x [/trn]\<close> it returns \<open>x\<close>: the spaces beside the tags are removed, not kept as
  one space each. On \<open>[trn]a\<close>, a tab, \<open>b[/trn]\<close> it returns the text with its tab: a
  single white space character is not replaced by a space.
\<close>

theorem greedy_translation_counterexample:
  "extractTranslation ''[trn]a[/trn], [trn]b[/trn]'' = ''a, b'' \<and>
   extractTranslationNonGreedy ''[trn]a[/trn], [trn]b[/trn]'' = ''a'' \<and>
   extractTranslation ''[trn] x [/trn]'' = ''x'' \<and>
   extractTranslation (''[trn]a'' @ [CHR 0x09] @ ''b[/trn]'') = ''a'' @ [CHR 0x09] @ ''b''"
  by (simp add: line_eval extractTranslationNonGreedy_def translationPatternNonGreedy_def)

end
